theory Spec2Isabelle
  imports Main "HOL-Library.Word" "HOL-Library.AList"
begin

unbundle bit_operations_syntax

section \<open>The qdb storage engine: data model\<close>

text \<open>
  The Go package \<open>qdb\<close> is a persistent key-value store. Its file with the store
  facade (\<open>DB\<close>, \<open>Put\<close>, \<open>Get\<close>, \<open>Browse\<close>, \<open>Defrag\<close>, \<open>sync\<close>, \<open>defrag\<close>,
  \<open>syncneeded\<close>, \<open>freerec\<close>, \<open>applyBrowsingFlags\<close>) is available; the index
  (\<open>db.Idx\<close>) and the data layer (\<open>loadrec\<close>, \<open>addtolog\<close>, \<open>checklogfile\<close>,
  \<open>cleanupold\<close>, \<open>Slice\<close>, \<open>FreeData\<close>, \<open>newIdx\<close>) are not: those are modelled from
  the specification, each marked as such.

  Conventions of the embedding.
  \<^item> \<open>uint32\<close> and \<open>uint64\<close> are \<open>32 word\<close> and \<open>64 word\<close>; \<open>int\<close> is taken to be
    64 bits wide, so \<open>int(x)\<close> of a \<open>uint32\<close> and \<open>len(m)\<close> are compared as naturals;
    the \<open>int64\<close> file position is a natural, its conversion \<open>uint32(fpos)\<close> truncates.
  \<^item> A Go map is an association list with distinct keys; the order of the list is
    the iteration order of \<open>range\<close>, which Go leaves unspecified.
  \<^item> The mutex is held for the whole of every operation, and the goroutine that runs
    \<open>sync\<close> or \<open>defrag\<close> releases it only when done: an operation is modelled as the
    state it leaves when the mutex is free again.
  \<^item> A walk function is a Go closure: it gets the state it captures as an argument
    and returns it updated.
  \<^item> The statistics counters (\<open>cnt\<close>) and the cache of open file handles
    (\<open>DatFiles\<close>) are outside the store's state and are left out.
\<close>

type_synonym byte = "8 word"
type_synonym u32 = "32 word"
type_synonym u64 = "64 word"
type_synonym KeyType = "64 word"

definition NoBrowse :: u32 where "NoBrowse = 0x00000001"
definition NoCache :: u32 where "NoCache = 0x00000002"
definition BrAbort :: u32 where "BrAbort = 0x00000004"
definition YesCache :: u32 where "YesCache = 0x00000008"
definition YesBrowse :: u32 where "YesBrowse = 0x00000010"

definition DefaultDefragPercentVal :: u32 where "DefaultDefragPercentVal = 50"
definition DefaultForcedDefragPerc :: u32 where "DefaultForcedDefragPerc = 300"
definition DefaultMaxPending :: u32 where "DefaultMaxPending = 2500"
definition DefaultMaxPendingNoSync :: u32 where "DefaultMaxPendingNoSync = 10000"

text \<open>
  \<open>oneIdx\<close>: one entry of the index. \<open>data\<close> is the payload pointer (\<open>None\<close> is
  \<open>nil\<close>); \<open>recDataSeq\<close> is the field \<open>DataSeq\<close> of the Go struct, renamed because
  the store has a field of the same name.
\<close>

record oneIdx =
  data :: "byte list option"
  recDataSeq :: u32
  datpos :: u32
  datlen :: u32
  flags :: u32

record ExtraOpts =
  DefragPercentVal :: u32
  ForcedDefragPerc :: u32
  MaxPending :: u32
  MaxPendingNoSync :: u32

subsection \<open>The files of the store directory\<close>

text \<open>
  Modelled from the spec: the on-disk layout. \<open>qdb.log\<close> is a sequence of put records
  \<open>(key, data_seq, offset, length, flags)\<close> and delete records \<open>(key)\<close>; \<open>qdb.0\<close> and
  \<open>qdb.1\<close> are snapshots, each a header with the highest data-file generation and the
  locators (\<open>None\<close>: the file is absent or not valid); \<open>seq.dat\<close> is a byte sequence
  of records \<open>key(8), length(4), payload\<close>, little-endian.
\<close>

datatype logrec = PutRec KeyType u32 u32 u32 u32 | DelRec KeyType

record snapshot =
  snap_seq :: u32
  snap_recs :: "(KeyType \<times> u32 \<times> u32 \<times> u32 \<times> u32) list"

record Disk =
  dat_files :: "(u32 \<times> byte list) list"
  qdb_log :: "logrec list"
  qdb_0 :: "snapshot option"
  qdb_1 :: "snapshot option"

text \<open>
  The index struct: of its fields the store's code reads \<open>ExtraSpaceUsed\<close>,
  \<open>DiskSpaceNeeded\<close> and \<open>MaxDatfileSequence\<close>; \<open>entries\<close> is its map from keys to
  entries, \<open>DatfileIndex\<close> the slot (0 or 1) of the current snapshot.
\<close>

record Index =
  entries :: "(KeyType \<times> oneIdx) list"
  ExtraSpaceUsed :: u64
  DiskSpaceNeeded :: u64
  MaxDatfileSequence :: u32
  DatfileIndex :: nat

text \<open>
  \<open>DB\<close>. \<open>LogFile\<close> tells whether the handle of the current data file is open (not
  \<open>nil\<close>); \<open>Opts\<close> is the field \<open>O\<close>; \<open>disk\<close> is the content of the directory \<open>Dir\<close>.
\<close>

record DB =
  LogFile :: bool
  LastValidLogPos :: nat
  DataSeq :: u32
  Idx :: Index
  NoSyncMode :: bool
  PendingRecords :: "KeyType list"
  Opts :: ExtraOpts
  VolatileMode :: bool
  disk :: Disk

type_synonym 's WalkFunction = "'s \<Rightarrow> KeyType \<Rightarrow> byte list \<Rightarrow> u32 \<times> 's"

record 's NewDBOpts =
  Records :: nat
  WalkFunction :: "'s WalkFunction option"
  LoadData :: bool
  Volatile :: bool
  ExtraOpts :: "ExtraOpts option"

section \<open>Entries: payload and flags\<close>

text \<open>
  Modelled from the spec: \<open>newIdx\<close>, \<open>Slice\<close> and \<open>FreeData\<close> are not in the source.
  The payload is "the materialized bytes, present when the entry is cached in memory",
  \<open>length\<close> is the "payload length in bytes", and eviction drops the payload while the
  locator remains. A new entry has no place on disk yet. \<open>Slice\<close> of an entry with no
  payload in memory is read as the empty slice.
\<close>

definition newIdx :: "byte list \<Rightarrow> u32 \<Rightarrow> oneIdx" where
  "newIdx v f = \<lparr>data = Some v, recDataSeq = 0, datpos = 0, datlen = of_nat (length v), flags = f\<rparr>"

definition Slice :: "oneIdx \<Rightarrow> byte list" where
  "Slice idx = (case data idx of None \<Rightarrow> [] | Some b \<Rightarrow> b)"

definition FreeData :: "oneIdx \<Rightarrow> oneIdx" where
  "FreeData idx = idx\<lparr>data := None\<rparr>"

text \<open>\<open>freerec\<close> and \<open>applyBrowsingFlags\<close>, as in the source.\<close>

definition freerec :: "oneIdx \<Rightarrow> oneIdx" where
  "freerec idx = (if flags idx AND NoCache \<noteq> 0 then FreeData idx else idx)"

definition applyBrowsingFlags :: "oneIdx \<Rightarrow> u32 \<Rightarrow> oneIdx" where
  "applyBrowsingFlags idx res =
     (let idx1 =
            (if res AND NoBrowse \<noteq> 0 then idx\<lparr>flags := flags idx OR NoBrowse\<rparr>
             else if res AND YesBrowse \<noteq> 0 then idx\<lparr>flags := flags idx AND NOT NoBrowse\<rparr>
             else idx)
      in (if res AND NoCache \<noteq> 0 then idx1\<lparr>flags := flags idx1 OR NoCache\<rparr>
          else if res AND YesCache \<noteq> 0 then idx1\<lparr>flags := flags idx1 AND NOT NoCache\<rparr>
          else idx1))"

text \<open>The two policy bits of an entry.\<close>

definition no_browse :: "oneIdx \<Rightarrow> bool" where
  "no_browse idx = (flags idx AND NoBrowse \<noteq> 0)"

definition no_cache :: "oneIdx \<Rightarrow> bool" where
  "no_cache idx = (flags idx AND NoCache \<noteq> 0)"

section \<open>The data layer\<close>

text \<open>
  Modelled from the spec: the data layer is not in the source. "\<open>append(seq, key,
  payload) -> offset\<close>: opens the file for generation \<open>seq\<close> if needed, seeks to end,
  writes \<open>key\<close>, \<open>length\<close>, \<open>payload\<close>, and returns the starting offset";
  "\<open>read(seq, offset, length) -> payload\<close>: reads exactly \<open>length\<close> bytes from
  \<open>offset\<close>. The stored header is not re-parsed". The offset of a locator is "where
  the record begins", so \<open>read\<close> delivers the \<open>length\<close> payload bytes of the record
  that begins at \<open>offset\<close>, stepping over its 12 header bytes without looking at them.
  A read that reaches beyond the end of the file delivers the bytes that are there.
\<close>

definition le_bytes :: "nat \<Rightarrow> 'a::len word \<Rightarrow> byte list" where
  "le_bytes n x = map (\<lambda>i. ucast (drop_bit (8 * i) x)) [0..<n]"

definition dat_record :: "KeyType \<Rightarrow> byte list \<Rightarrow> byte list" where
  "dat_record key val = le_bytes 8 key @ le_bytes 4 (of_nat (length val) :: u32) @ val"

definition dat_file :: "Disk \<Rightarrow> u32 \<Rightarrow> byte list" where
  "dat_file d seq = (case map_of (dat_files d) seq of None \<Rightarrow> [] | Some f \<Rightarrow> f)"

definition append_dat :: "Disk \<Rightarrow> u32 \<Rightarrow> byte list \<Rightarrow> Disk" where
  "append_dat d seq bs = d\<lparr>dat_files := AList.update seq (dat_file d seq @ bs) (dat_files d)\<rparr>"

definition read_dat :: "Disk \<Rightarrow> u32 \<Rightarrow> u32 \<Rightarrow> u32 \<Rightarrow> byte list" where
  "read_dat d seq off len = take (unat len) (drop (unat off + 12) (dat_file d seq))"

text \<open>
  Modelled from the spec: \<open>addtolog(f, key, val)\<close> of the store is not in the source; it
  is the \<open>append\<close> of the data layer, "buffered; the caller is responsible for
  flushing". \<open>wr\<close> is what has been written to the writer so far (the buffer \<open>f\<close>, or
  the current data file when \<open>f\<close> is \<open>nil\<close>), \<open>pos\<close> is the field \<open>LastValidLogPos\<close>
  of the store. It returns the starting offset, the writer and the new
  \<open>LastValidLogPos\<close>.
\<close>

definition addtolog :: "byte list \<Rightarrow> nat \<Rightarrow> KeyType \<Rightarrow> byte list \<Rightarrow> nat \<times> byte list \<times> nat" where
  "addtolog wr pos key val = (pos, wr @ dat_record key val, pos + length (dat_record key val))"

text \<open>
  Modelled from the spec: \<open>loadrec\<close> is not in the source. "Ensure the payload is
  resident (read from the data file if needed)": an entry with a payload in memory is
  left as it is, another gets what \<open>read\<close> delivers for its locator.
\<close>

definition loadrec :: "Disk \<Rightarrow> oneIdx \<Rightarrow> oneIdx" where
  "loadrec d idx =
     (case data idx of
        None \<Rightarrow> idx\<lparr>data := Some (read_dat d (recDataSeq idx) (datpos idx) (datlen idx))\<rparr>
      | Some b \<Rightarrow> idx)"

text \<open>
  Modelled from the spec: \<open>checklogfile\<close> is not in the source. It is the part of
  \<open>append\<close> that "opens the file for generation \<open>seq\<close> if needed, seeks to end": when
  no handle is open, the data file of the current generation is opened for appending,
  created if it does not exist, and the position is its end.
\<close>

definition checklogfile :: "DB \<Rightarrow> DB" where
  "checklogfile db =
     (if LogFile db then db
      else db\<lparr>LogFile := True,
              LastValidLogPos := length (dat_file (disk db) (DataSeq db)),
              disk := append_dat (disk db) (DataSeq db) []\<rparr>)"

text \<open>
  Modelled from the spec: \<open>cleanupold\<close> is not in the source. "Remove every data file
  whose generation is not in the set referenced by the rewritten index."
\<close>

definition cleanupold :: "DB \<Rightarrow> u32 list \<Rightarrow> DB" where
  "cleanupold db used =
     db\<lparr>disk := (disk db)\<lparr>dat_files := filter (\<lambda>(seq, f). seq \<in> set used) (dat_files (disk db))\<rparr>\<rparr>"

section \<open>The index\<close>

text \<open>
  Modelled from the spec: the index is not in the source. "\<open>mem_put(key, locator)\<close>:
  if key was present, credit \<open>extra_space_used += previous.length\<close>; install the new
  locator"; "\<open>mem_del(key)\<close>: if present, credit \<open>extra_space_used +=
  previous.length\<close> and remove"; "\<open>get(key)\<close>: return the locator entry by reference,
  or nothing"; "\<open>disk_space_needed\<close> is maintained to equal the sum of live lengths; it
  is recomputed after every snapshot write".
\<close>

definition Idx_get :: "Index \<Rightarrow> KeyType \<Rightarrow> oneIdx option" where
  "Idx_get idx k = map_of (entries idx) k"

definition Idx_set :: "Index \<Rightarrow> KeyType \<Rightarrow> oneIdx \<Rightarrow> Index" where
  \<comment> \<open>a write through the pointer that \<open>get\<close> returned\<close>
  "Idx_set idx k rec = idx\<lparr>entries := AList.update k rec (entries idx)\<rparr>"

definition memput :: "Index \<Rightarrow> KeyType \<Rightarrow> oneIdx \<Rightarrow> Index" where
  "memput idx k rec =
     (let idx1 = (case map_of (entries idx) k of
                    None \<Rightarrow> idx
                  | Some prv \<Rightarrow> idx\<lparr>ExtraSpaceUsed := ExtraSpaceUsed idx + ucast (datlen prv),
                                     DiskSpaceNeeded := DiskSpaceNeeded idx - ucast (datlen prv)\<rparr>)
      in idx1\<lparr>entries := AList.update k rec (entries idx1),
              DiskSpaceNeeded := DiskSpaceNeeded idx1 + ucast (datlen rec)\<rparr>)"

definition memdel :: "Index \<Rightarrow> KeyType \<Rightarrow> Index" where
  "memdel idx k =
     (case map_of (entries idx) k of
        None \<Rightarrow> idx
      | Some prv \<Rightarrow> idx\<lparr>entries := AList.delete k (entries idx),
                         ExtraSpaceUsed := ExtraSpaceUsed idx + ucast (datlen prv),
                         DiskSpaceNeeded := DiskSpaceNeeded idx - ucast (datlen prv)\<rparr>)"

text \<open>
  Modelled from the spec: \<open>browse\<close> of the index is not in the source. It "iterates the
  index in its natural order", calling \<open>walk\<close> on each entry until \<open>walk\<close> returns false
  (the source says of \<open>Browse\<close>: "if the walk function returns false, it aborts the
  browsing and returns"). \<open>walk\<close> gets a pointer to the entry, so it returns the entry
  as it leaves it, and the state \<open>c\<close> that the closure captures.
\<close>

fun Idx_browse ::
  "(KeyType \<Rightarrow> oneIdx \<Rightarrow> 'c \<Rightarrow> bool \<times> oneIdx \<times> 'c) \<Rightarrow> (KeyType \<times> oneIdx) list \<Rightarrow> 'c
     \<Rightarrow> (KeyType \<times> oneIdx) list \<times> 'c" where
  "Idx_browse walk [] c = ([], c)"
| "Idx_browse walk ((k, v) # rest) c =
     (case walk k v c of
        (cont, v', c') \<Rightarrow>
          if cont then (case Idx_browse walk rest c' of (rest', c'') \<Rightarrow> ((k, v') # rest', c''))
          else ((k, v') # rest, c'))"

text \<open>
  Modelled from the spec: \<open>addtolog\<close>, \<open>deltolog\<close> and \<open>writebuf\<close> of the index are not
  in the source. "Put records carry \<open>(key, data_seq, offset, length, flags)\<close>; delete
  records carry \<open>(key)\<close>": \<open>addtolog\<close> and \<open>deltolog\<close> write one record to a buffer,
  \<open>writebuf\<close> appends the buffer to \<open>qdb.log\<close>.
\<close>

definition Idx_addtolog :: "logrec list \<Rightarrow> KeyType \<Rightarrow> oneIdx \<Rightarrow> logrec list" where
  "Idx_addtolog wr k rec = wr @ [PutRec k (recDataSeq rec) (datpos rec) (datlen rec) (flags rec)]"

definition Idx_deltolog :: "logrec list \<Rightarrow> KeyType \<Rightarrow> logrec list" where
  "Idx_deltolog wr k = wr @ [DelRec k]"

definition Idx_writebuf :: "Disk \<Rightarrow> logrec list \<Rightarrow> Disk" where
  "Idx_writebuf d buf = d\<lparr>qdb_log := qdb_log d @ buf\<rparr>"

text \<open>
  Modelled from the spec: \<open>writedatfile\<close> of the index is not in the source. "It
  allocates the non-current snapshot file, writes the header then every live locator
  [...] and atomically switches the current marker by truncating the index log to zero
  length"; the header records "the highest data-file generation ever used", and
  \<open>disk_space_needed\<close> "is recomputed after every snapshot write".
\<close>

definition locator :: "KeyType \<times> oneIdx \<Rightarrow> KeyType \<times> u32 \<times> u32 \<times> u32 \<times> u32" where
  "locator kv = (fst kv, recDataSeq (snd kv), datpos (snd kv), datlen (snd kv), flags (snd kv))"

definition max_seq :: "(KeyType \<times> oneIdx) list \<Rightarrow> u32 \<Rightarrow> u32" where
  "max_seq es m = fold (\<lambda>kv m. max (recDataSeq (snd kv)) m) es m"

definition sum_len :: "(KeyType \<times> oneIdx) list \<Rightarrow> u64" where
  "sum_len es = fold (\<lambda>kv n. n + ucast (datlen (snd kv))) es 0"

definition writedatfile :: "Index \<Rightarrow> Disk \<Rightarrow> Index \<times> Disk" where
  "writedatfile idx d =
     (let mx = max_seq (entries idx) (MaxDatfileSequence idx);
          snap = \<lparr>snap_seq = mx, snap_recs = map locator (entries idx)\<rparr>;
          slot = 1 - DatfileIndex idx;
          d1 = (if slot = 0 then d\<lparr>qdb_0 := Some snap\<rparr> else d\<lparr>qdb_1 := Some snap\<rparr>)
      in (idx\<lparr>MaxDatfileSequence := mx, DatfileIndex := slot,
               DiskSpaceNeeded := sum_len (entries idx)\<rparr>,
          d1\<lparr>qdb_log := []\<rparr>))"

text \<open>
  Modelled from the spec: \<open>NewDBidx\<close> is not in the source. "The loader picks the
  snapshot file whose header is structurally valid [...]; if both are valid it picks
  the one pointing at the highest \<open>data_seq\<close>. It ingests every locator into memory. It
  then reads the index log forward, applying put/delete records [...]. If neither
  snapshot is valid the store starts empty." Of two valid snapshots with the same
  generation the model takes \<open>qdb.0\<close>.
\<close>

definition pick_snapshot :: "Disk \<Rightarrow> (nat \<times> snapshot) option" where
  "pick_snapshot d =
     (case qdb_0 d of
        None \<Rightarrow> (case qdb_1 d of None \<Rightarrow> None | Some b \<Rightarrow> Some (1, b))
      | Some a \<Rightarrow> (case qdb_1 d of
                    None \<Rightarrow> Some (0, a)
                  | Some b \<Rightarrow> if snap_seq a < snap_seq b then Some (1, b) else Some (0, a)))"

definition entry_of :: "u32 \<times> u32 \<times> u32 \<times> u32 \<Rightarrow> oneIdx" where
  "entry_of loc =
     (case loc of (seq, pos, len, fl) \<Rightarrow>
        \<lparr>data = None, recDataSeq = seq, datpos = pos, datlen = len, flags = fl\<rparr>)"

fun replay :: "logrec \<Rightarrow> Index \<Rightarrow> Index" where
  "replay (PutRec k seq pos len fl) idx = memput idx k (entry_of (seq, pos, len, fl))"
| "replay (DelRec k) idx = memdel idx k"

definition NewDBidx :: "Disk \<Rightarrow> Index" where
  "NewDBidx d =
     (let idx0 = \<lparr>entries = [], ExtraSpaceUsed = 0, DiskSpaceNeeded = 0,
                  MaxDatfileSequence = 0, DatfileIndex = 0\<rparr>;
          idx1 = (case pick_snapshot d of
                    None \<Rightarrow> idx0
                  | Some (slot, s) \<Rightarrow>
                      (fold (\<lambda>(k, loc) idx. memput idx k (entry_of loc)) (snap_recs s) idx0)
                        \<lparr>MaxDatfileSequence := snap_seq s, DatfileIndex := slot\<rparr>);
          idx2 = fold replay (qdb_log d) idx1
      in idx2\<lparr>MaxDatfileSequence := max_seq (entries idx2) (MaxDatfileSequence idx2)\<rparr>)"

text \<open>
  Modelled from the spec: \<open>load\<close> of the index is not in the source. The payload of
  every entry is read into memory; "the \<open>WalkFunction\<close> in open options, if provided,
  is invoked for every loaded record [...], receiving \<open>(key, payload)\<close> and its
  returned flags are applied to the new entry".
\<close>

definition load_walk ::
  "Disk \<Rightarrow> 's WalkFunction option \<Rightarrow> KeyType \<Rightarrow> oneIdx \<Rightarrow> 's \<Rightarrow> bool \<times> oneIdx \<times> 's" where
  "load_walk d walk k v s =
     (let v1 = loadrec d v
      in case walk of
           None \<Rightarrow> (True, v1, s)
         | Some w \<Rightarrow> (case w s k (Slice v1) of (res, s') \<Rightarrow> (True, applyBrowsingFlags v1 res, s')))"

definition Idx_load :: "Disk \<Rightarrow> 's WalkFunction option \<Rightarrow> Index \<Rightarrow> 's \<Rightarrow> Index \<times> 's" where
  "Idx_load d walk idx s =
     (case Idx_browse (load_walk d walk) (entries idx) s of
        (es, s') \<Rightarrow> (idx\<lparr>entries := es\<rparr>, s'))"

section \<open>The store\<close>

text \<open>
  The operations of the store, as in the source. \<open>NewDBExt\<close> takes the directory as it
  is on disk; the walk function of the options gets and returns its state.
\<close>

definition NewDBExt :: "Disk \<Rightarrow> 's NewDBOpts \<Rightarrow> 's \<Rightarrow> DB \<times> 's" where
  "NewDBExt d opts s =
     (let ex = (case ExtraOpts opts of
                  None \<Rightarrow> \<lparr>DefragPercentVal = DefaultDefragPercentVal,
                           ForcedDefragPerc = DefaultForcedDefragPerc,
                           MaxPending = DefaultMaxPending,
                           MaxPendingNoSync = DefaultMaxPendingNoSync\<rparr>
                | Some e \<Rightarrow> e);
          idx = NewDBidx d
      in case (if LoadData opts then Idx_load d (WalkFunction opts) idx s else (idx, s)) of
           (idx', s') \<Rightarrow>
             (\<lparr>LogFile = False, LastValidLogPos = 0, DataSeq = MaxDatfileSequence idx' + 1,
               Idx = idx', NoSyncMode = False, PendingRecords = [], Opts = ex,
               VolatileMode = Volatile opts, disk = d\<rparr>, s'))"

definition NewDB :: "Disk \<Rightarrow> bool \<Rightarrow> DB" where
  "NewDB d load =
     fst (NewDBExt d \<lparr>Records = 0, WalkFunction = None, LoadData = load, Volatile = False,
                       ExtraOpts = None\<rparr> ())"

definition syncneeded :: "DB \<Rightarrow> bool" where
  "syncneeded db =
     (if VolatileMode db then False
      else if length (PendingRecords db) > unat (MaxPendingNoSync (Opts db)) then True
      else if \<not> NoSyncMode db \<and> length (PendingRecords db) > unat (MaxPending (Opts db)) then True
      else False)"

text \<open>The callback of \<open>defrag\<close>; the closure captures the position, the buffered writer
  and the set \<open>used\<close>.\<close>

definition defrag_walk ::
  "Disk \<Rightarrow> u32 \<Rightarrow> KeyType \<Rightarrow> oneIdx \<Rightarrow> nat \<times> byte list \<times> u32 list
     \<Rightarrow> bool \<times> oneIdx \<times> nat \<times> byte list \<times> u32 list" where
  "defrag_walk d seq key rec c =
     (case c of (pos, bufile, used) \<Rightarrow>
        (let rec1 = loadrec d rec
         in case addtolog bufile pos key (Slice rec1) of
              (fpos, bufile', pos') \<Rightarrow>
                (let rec2 = rec1\<lparr>datpos := of_nat fpos\<rparr>;
                     rec3 = rec2\<lparr>recDataSeq := seq\<rparr>;
                     used' = List.insert (recDataSeq rec3) used
                 in (True, freerec rec3, pos', bufile', used'))))"

definition defrag :: "DB \<Rightarrow> DB" where
  "defrag db =
     (let db1 = db\<lparr>DataSeq := DataSeq db + 1\<rparr>;
          db2 = checklogfile (db1\<lparr>LogFile := False\<rparr>)
      in case Idx_browse (defrag_walk (disk db2) (DataSeq db2)) (entries (Idx db2))
                (LastValidLogPos db2, [], []) of
           (es, pos, bufile, used) \<Rightarrow>
             (let db3 = db2\<lparr>Idx := (Idx db2)\<lparr>entries := es\<rparr>, LastValidLogPos := pos,
                            disk := append_dat (disk db2) (DataSeq db2) bufile\<rparr>
              in case writedatfile (Idx db3) (disk db3) of
                   (idx, d) \<Rightarrow>
                     (let db4 = cleanupold (db3\<lparr>Idx := idx, disk := d\<rparr>) used
                      in db4\<lparr>Idx := (Idx db4)\<lparr>ExtraSpaceUsed := 0\<rparr>\<rparr>)))"

text \<open>The body of the loop of \<open>sync\<close> for one pending key, and the loop.\<close>

definition sync_key :: "DB \<Rightarrow> logrec list \<Rightarrow> KeyType \<Rightarrow> DB \<times> logrec list" where
  "sync_key db bidx k =
     (case Idx_get (Idx db) k of
        Some rec \<Rightarrow>
          (case addtolog [] (LastValidLogPos db) k (Slice rec) of
             (fpos, written, pos') \<Rightarrow>
               (let rec1 = rec\<lparr>datpos := of_nat fpos\<rparr>;
                    rec2 = rec1\<lparr>recDataSeq := DataSeq db\<rparr>;
                    bidx' = Idx_addtolog bidx k rec2;
                    rec3 = (if flags rec2 AND NoCache \<noteq> 0 then FreeData rec2 else rec2)
                in (db\<lparr>LastValidLogPos := pos',
                        disk := append_dat (disk db) (DataSeq db) written,
                        Idx := Idx_set (Idx db) k rec3\<rparr>, bidx')))
      | None \<Rightarrow> (db, Idx_deltolog bidx k))"

fun sync_loop :: "DB \<Rightarrow> logrec list \<Rightarrow> KeyType list \<Rightarrow> DB \<times> logrec list" where
  "sync_loop db bidx [] = (db, bidx)"
| "sync_loop db bidx (k # ks) = (case sync_key db bidx k of (db', bidx') \<Rightarrow> sync_loop db' bidx' ks)"

definition forced_defrag_due :: "DB \<Rightarrow> bool" where
  "forced_defrag_due db =
     (ExtraSpaceUsed (Idx db) > ucast (ForcedDefragPerc (Opts db)) * DiskSpaceNeeded (Idx db) div 100)"

text \<open>\<open>sync_flush\<close> is \<open>sync\<close> from \<open>checklogfile\<close> to the line that replaces the
  pending set by an empty map.\<close>

definition sync_flush :: "DB \<Rightarrow> DB" where
  "sync_flush db =
     (case sync_loop (checklogfile db) [] (PendingRecords db) of
        (db1, bidx) \<Rightarrow>
          (let db2 = db1\<lparr>disk := Idx_writebuf (disk db1) bidx\<rparr>
           in db2\<lparr>PendingRecords := []\<rparr>))"

definition sync :: "DB \<Rightarrow> DB" where
  "sync db =
     (if VolatileMode db then db
      else if length (PendingRecords db) > 0 then
        (let db3 = sync_flush db
         in if forced_defrag_due db3 then defrag db3 else db3)
      else db)"

definition PutExt :: "DB \<Rightarrow> KeyType \<Rightarrow> byte list \<Rightarrow> u32 \<Rightarrow> DB" where
  "PutExt db key val fl =
     (let db1 = db\<lparr>Idx := memput (Idx db) key (newIdx val fl)\<rparr>
      in if VolatileMode db1 then db1\<lparr>NoSyncMode := True\<rparr>
         else (let db2 = db1\<lparr>PendingRecords := List.insert key (PendingRecords db1)\<rparr>
               in if syncneeded db2 then sync db2 else db2))"

definition Put :: "DB \<Rightarrow> KeyType \<Rightarrow> byte list \<Rightarrow> DB" where
  "Put db key val =
     (let db1 = db\<lparr>Idx := memput (Idx db) key (newIdx val 0)\<rparr>
      in if VolatileMode db1 then db1\<lparr>NoSyncMode := True\<rparr>
         else (let db2 = db1\<lparr>PendingRecords := List.insert key (PendingRecords db1)\<rparr>
               in if syncneeded db2 then sync db2 else db2))"

definition Del :: "DB \<Rightarrow> KeyType \<Rightarrow> DB" where
  "Del db key =
     (let db1 = db\<lparr>Idx := memdel (Idx db) key\<rparr>
      in if VolatileMode db1 then db1\<lparr>NoSyncMode := True\<rparr>
         else (let db2 = db1\<lparr>PendingRecords := List.insert key (PendingRecords db1)\<rparr>
               in if syncneeded db2 then sync db2 else db2))"

text \<open>\<open>Get\<close> returns \<open>None\<close> for the \<open>nil\<close> slice of an absent key.\<close>

definition Get :: "DB \<Rightarrow> KeyType \<Rightarrow> byte list option \<times> DB" where
  "Get db key =
     (case Idx_get (Idx db) key of
        Some idx \<Rightarrow>
          (let idx1 = loadrec (disk db) idx;
               idx2 = applyBrowsingFlags idx1 YesCache
           in (Some (Slice idx2), db\<lparr>Idx := Idx_set (Idx db) key idx2\<rparr>))
      | None \<Rightarrow> (None, db))"

definition Browse_walk ::
  "Disk \<Rightarrow> 's WalkFunction \<Rightarrow> KeyType \<Rightarrow> oneIdx \<Rightarrow> 's \<Rightarrow> bool \<times> oneIdx \<times> 's" where
  "Browse_walk d walk k v s =
     (if flags v AND NoBrowse \<noteq> 0 then (True, v, s)
      else (let v1 = loadrec d v
            in case walk s k (Slice v1) of
                 (res, s') \<Rightarrow> (res AND BrAbort = 0, freerec (applyBrowsingFlags v1 res), s')))"

definition Browse :: "DB \<Rightarrow> 's WalkFunction \<Rightarrow> 's \<Rightarrow> DB \<times> 's" where
  "Browse db walk s =
     (case Idx_browse (Browse_walk (disk db) walk) (entries (Idx db)) s of
        (es, s') \<Rightarrow> (db\<lparr>Idx := (Idx db)\<lparr>entries := es\<rparr>\<rparr>, s'))"

definition BrowseAll_walk ::
  "Disk \<Rightarrow> 's WalkFunction \<Rightarrow> KeyType \<Rightarrow> oneIdx \<Rightarrow> 's \<Rightarrow> bool \<times> oneIdx \<times> 's" where
  "BrowseAll_walk d walk k v s =
     (let v1 = loadrec d v
      in case walk s k (Slice v1) of
           (res, s') \<Rightarrow> (res AND BrAbort = 0, freerec (applyBrowsingFlags v1 res), s'))"

definition BrowseAll :: "DB \<Rightarrow> 's WalkFunction \<Rightarrow> 's \<Rightarrow> DB \<times> 's" where
  "BrowseAll db walk s =
     (case Idx_browse (BrowseAll_walk (disk db) walk) (entries (Idx db)) s of
        (es, s') \<Rightarrow> (db\<lparr>Idx := (Idx db)\<lparr>entries := es\<rparr>\<rparr>, s'))"

definition defrag_due :: "DB \<Rightarrow> bool" where
  "defrag_due db =
     (ExtraSpaceUsed (Idx db) > ucast (DefragPercentVal (Opts db)) * DiskSpaceNeeded (Idx db) div 100)"

definition Defrag :: "DB \<Rightarrow> bool \<Rightarrow> bool \<times> DB" where
  "Defrag db force =
     (if VolatileMode db then (False, db)
      else (let doing = (force \<or> defrag_due db)
            in if doing then (doing, defrag db) else (doing, db)))"

definition Sync :: "DB \<Rightarrow> DB" where
  "Sync db = (if VolatileMode db then db else sync (db\<lparr>NoSyncMode := False\<rparr>))"

text \<open>\<open>Close\<close> releases every handle and the index; what is left is the directory.\<close>

definition Close :: "DB \<Rightarrow> Disk" where
  "Close db =
     disk (if VolatileMode db then (if NoSyncMode db then defrag db else db) else sync db)"

section \<open>Statements of the specification, and example stores\<close>

text \<open>
  The sync policy in the words of the specification: "if the store is in no-sync mode
  and the pending set has grown beyond \<open>MaxPendingNoSync\<close>, a sync is triggered; else
  if the store is not in no-sync mode and the pending set has grown beyond
  \<open>MaxPending\<close>, a sync is triggered; otherwise the mutation is held only in memory".
\<close>

definition claimed_sync_trigger :: "DB \<Rightarrow> bool" where
  "claimed_sync_trigger db =
     (if NoSyncMode db \<and> length (PendingRecords db) > unat (MaxPendingNoSync (Opts db)) then True
      else if \<not> NoSyncMode db \<and> length (PendingRecords db) > unat (MaxPending (Opts db)) then True
      else False)"

text \<open>
  The browse protocol in the words of the specification: for each visited entry, call
  \<open>walk(key, payload)\<close>; "if \<open>BrAbort\<close> is set in the result, terminate iteration;
  otherwise continue". \<open>visit_until_abort\<close> is the state of the walk function after
  the visits, \<open>visited\<close> the keys it was called on, in order.
\<close>

fun visit_until_abort :: "'s WalkFunction \<Rightarrow> 's \<Rightarrow> (KeyType \<times> byte list) list \<Rightarrow> 's" where
  "visit_until_abort walk s [] = s"
| "visit_until_abort walk s ((k, p) # rest) =
     (case walk s k p of
        (res, s') \<Rightarrow> if res AND BrAbort \<noteq> 0 then s' else visit_until_abort walk s' rest)"

fun visited :: "'s WalkFunction \<Rightarrow> 's \<Rightarrow> (KeyType \<times> byte list) list \<Rightarrow> KeyType list" where
  "visited walk s [] = []"
| "visited walk s ((k, p) # rest) =
     k # (case walk s k p of
            (res, s') \<Rightarrow> if res AND BrAbort \<noteq> 0 then [] else visited walk s' rest)"

text \<open>The payload that a visit of an entry hands to the walk function.\<close>

definition payload_of :: "Disk \<Rightarrow> KeyType \<times> oneIdx \<Rightarrow> KeyType \<times> byte list" where
  "payload_of d kv = (fst kv, Slice (loadrec d (snd kv)))"

text \<open>A walk function that also keeps the list of the keys it is called on.\<close>

definition record_walk :: "'s WalkFunction \<Rightarrow> ('s \<times> KeyType list) WalkFunction" where
  "record_walk walk c k p =
     (case walk (fst c) k p of (res, s') \<Rightarrow> (res, (s', snd c @ [k])))"

text \<open>
  What the sync procedure leaves for a key that is live with entry \<open>rec\<close> when the sync
  starts: the slice that \<open>rec\<close> holds in memory (the payload when it is resident, and
  empty when it is not) is in the data file of generation \<open>seq\<close>, in the part written
  since \<open>start\<close>, at the offset of its locator (the record begins at \<open>datpos\<close>, the
  slice follows the 12 header bytes); the locator has this generation; the index log
  has the put record with the locator; the payload is dropped from memory if
  \<open>no_cache\<close> is set, and kept otherwise.
\<close>

fun logrec_key :: "logrec \<Rightarrow> KeyType" where
  "logrec_key (PutRec k seq pos len fl) = k"
| "logrec_key (DelRec k) = k"

definition synced :: "KeyType \<Rightarrow> oneIdx \<Rightarrow> u32 \<Rightarrow> nat \<Rightarrow> DB \<Rightarrow> logrec list \<Rightarrow> bool" where
  "synced k rec seq start db' recs =
     (\<exists>rec'. Idx_get (Idx db') k = Some rec'
        \<and> recDataSeq rec' = seq
        \<and> start \<le> unat (datpos rec')
        \<and> unat (datpos rec') + 12 + length (Slice rec) \<le> length (dat_file (disk db') seq)
        \<and> take (length (Slice rec)) (drop (unat (datpos rec') + 12) (dat_file (disk db') seq)) = Slice rec
        \<and> PutRec k seq (datpos rec') (datlen rec') (flags rec') \<in> set recs
        \<and> datlen rec' = datlen rec \<and> flags rec' = flags rec
        \<and> data rec' = (if no_cache rec then None else data rec))"

text \<open>The position of the store is the end of its current data file.\<close>

definition pos_ok :: "DB \<Rightarrow> bool" where
  "pos_ok db = (LastValidLogPos db = length (dat_file (disk db) (DataSeq db)))"

text \<open>
  Compaction in the words of the specification, for an entry \<open>e\<close> whose payload is \<open>p\<close>:
  the payload has been appended to the data file of the new generation \<open>seq\<close>, the
  locator points at the new record (with \<open>buf\<close> the bytes from position \<open>base\<close> of that
  file on), and the payload has been dropped from memory if \<open>no_cache\<close> is set.
\<close>

definition rewritten :: "oneIdx \<Rightarrow> byte list \<Rightarrow> u32 \<Rightarrow> nat \<Rightarrow> byte list \<Rightarrow> oneIdx \<Rightarrow> bool" where
  "rewritten e p seq base buf e' =
     (recDataSeq e' = seq \<and> flags e' = flags e \<and> datlen e' = datlen e
      \<and> data e' = (if no_cache e then None else Some p)
      \<and> (\<exists>off. datpos e' = of_nat (base + off) \<and> off + 12 + length p \<le> length buf
             \<and> take (length p) (drop (off + 12) buf) = p))"

text \<open>The iteration of \<open>defrag\<close> over the index, on a store about to be compacted.\<close>

definition defrag_browse ::
  "DB \<Rightarrow> (KeyType \<times> oneIdx) list \<times> nat \<times> byte list \<times> u32 list" where
  "defrag_browse db =
     Idx_browse (defrag_walk (append_dat (disk db) (DataSeq db + 1) []) (DataSeq db + 1))
       (entries (Idx db)) (length (dat_file (disk db) (DataSeq db + 1)), [], [])"

text \<open>
  The store in the middle of \<open>PutExt\<close>, outside volatile mode: the index has the new
  entry and the key is in the pending set, and \<open>syncneeded\<close> has not been asked yet.
\<close>

definition held_PutExt :: "DB \<Rightarrow> KeyType \<Rightarrow> byte list \<Rightarrow> u32 \<Rightarrow> DB" where
  "held_PutExt db key val fl =
     db\<lparr>Idx := memput (Idx db) key (newIdx val fl),
        PendingRecords := List.insert key (PendingRecords db)\<rparr>"

text \<open>An empty directory, and the store opened on it.\<close>

definition empty_disk :: Disk where
  "empty_disk = \<lparr>dat_files = [], qdb_log = [], qdb_0 = None, qdb_1 = None\<rparr>"

definition open_with :: "bool \<Rightarrow> ExtraOpts option \<Rightarrow> DB" where
  "open_with vol ex =
     fst (NewDBExt empty_disk \<lparr>Records = 0, WalkFunction = None, LoadData = True,
                                Volatile = vol, ExtraOpts = ex\<rparr> ())"

text \<open>Options with a small batch, and a directory whose index log rewrites key 1.\<close>

definition small_batch :: ExtraOpts where
  "small_batch = \<lparr>DefragPercentVal = 50, ForcedDefragPerc = 300, MaxPending = 5,
                   MaxPendingNoSync = 0\<rparr>"

definition rewritten_disk :: Disk where
  "rewritten_disk =
     \<lparr>dat_files = [(1, dat_record 1 [1, 2, 3, 4] @ dat_record 1 [5])],
      qdb_log = [PutRec 1 1 0 4 0, PutRec 1 1 16 1 0], qdb_0 = None, qdb_1 = None\<rparr>"

text \<open>The store opened on \<open>rewritten_disk\<close> with the small batch.\<close>

definition reopened :: DB where
  "reopened = fst (NewDBExt rewritten_disk \<lparr>Records = 0, WalkFunction = None, LoadData = False,
                                Volatile = False, ExtraOpts = Some small_batch\<rparr> ())"

text \<open>
  A store with a pending key whose payload is on disk and not in memory: on an empty
  directory \<open>PutExt(1, [1, 2, 3], NoCache)\<close> is held, and \<open>Defrag(true)\<close> writes the
  payload to the data file of the next generation and, the entry being \<open>no_cache\<close>,
  drops it from memory; \<open>defrag\<close> leaves the pending set as it is.
\<close>

definition evicted_pending :: DB where
  "evicted_pending = snd (Defrag (PutExt (open_with False None) 1 [1, 2, 3] NoCache) True)"

section \<open>Flag requests\<close>

lemma flag_consts_pow:
  "NoBrowse = 2 ^ 0" "NoCache = 2 ^ 1" "BrAbort = 2 ^ 2" "YesCache = 2 ^ 3" "YesBrowse = 2 ^ 4"
  by (simp_all add: NoBrowse_def NoCache_def BrAbort_def YesCache_def YesBrowse_def)

lemma and_pow_neq0_bit: "((w :: u32) AND 2 ^ n \<noteq> 0) = bit w n"
  using and_exp_eq_0_iff_not_bit [of w n] by simp

lemma no_browse_bit: "no_browse idx = bit (flags idx) 0"
  unfolding no_browse_def flag_consts_pow by (rule and_pow_neq0_bit)

lemma no_cache_bit: "no_cache idx = bit (flags idx) 1"
  unfolding no_cache_def flag_consts_pow by (rule and_pow_neq0_bit)

lemma bit_flags_applyBrowsingFlags:
  "bit (flags (applyBrowsingFlags idx res)) n =
     (if n = 0 then (if bit res 0 then True else if bit res 4 then False else bit (flags idx) 0)
      else if n = 1 then (if bit res 1 then True else if bit res 3 then False else bit (flags idx) 1)
      else bit (flags idx) n)"
  unfolding applyBrowsingFlags_def Let_def flag_consts_pow and_pow_neq0_bit
  by (auto simp: bit_simps dest: bit_imp_le_length)

lemma applyBrowsingFlags_other_fields:
  "data (applyBrowsingFlags idx res) = data idx"
  "recDataSeq (applyBrowsingFlags idx res) = recDataSeq idx"
  "datpos (applyBrowsingFlags idx res) = datpos idx"
  "datlen (applyBrowsingFlags idx res) = datlen idx"
  by (simp_all add: applyBrowsingFlags_def Let_def)

text \<open>
  C7. Within one result mask and for each of the two bits on its own, the set request
  (\<open>NoBrowse\<close>, \<open>NoCache\<close>) wins over the clear request (\<open>YesBrowse\<close>, \<open>YesCache\<close>), a
  clear request alone clears the bit, and with neither the bit keeps its value; the
  requests for one bit do not touch the other. Applied one after the other, \<open>NoX\<close>
  then \<open>YesX\<close> leaves the bit clear and \<open>YesX\<close> then \<open>NoX\<close> leaves it set.
\<close>

theorem applyBrowsingFlags_compose:
  "no_browse (applyBrowsingFlags idx res) =
     (if res AND NoBrowse \<noteq> 0 then True
      else if res AND YesBrowse \<noteq> 0 then False else no_browse idx)
   \<and> no_cache (applyBrowsingFlags idx res) =
     (if res AND NoCache \<noteq> 0 then True
      else if res AND YesCache \<noteq> 0 then False else no_cache idx)
   \<and> no_browse (applyBrowsingFlags (applyBrowsingFlags idx NoBrowse) YesBrowse) = False
   \<and> no_browse (applyBrowsingFlags (applyBrowsingFlags idx YesBrowse) NoBrowse) = True
   \<and> no_cache (applyBrowsingFlags (applyBrowsingFlags idx NoCache) YesCache) = False
   \<and> no_cache (applyBrowsingFlags (applyBrowsingFlags idx YesCache) NoCache) = True"
proof -
  have single: "\<And>i r. no_browse (applyBrowsingFlags i r) =
      (if r AND NoBrowse \<noteq> 0 then True else if r AND YesBrowse \<noteq> 0 then False else no_browse i)"
    "\<And>i r. no_cache (applyBrowsingFlags i r) =
      (if r AND NoCache \<noteq> 0 then True else if r AND YesCache \<noteq> 0 then False else no_cache i)"
    unfolding no_browse_bit no_cache_bit bit_flags_applyBrowsingFlags
    unfolding flag_consts_pow and_pow_neq0_bit by simp_all
  have req: "NoBrowse AND NoBrowse \<noteq> 0" "YesBrowse AND NoBrowse = 0"
    "YesBrowse AND YesBrowse \<noteq> 0" "NoCache AND NoCache \<noteq> 0" "YesCache AND NoCache = 0"
    "YesCache AND YesCache \<noteq> 0"
    by (simp_all add: NoBrowse_def NoCache_def YesCache_def YesBrowse_def)
  show ?thesis
    unfolding single using req by simp
qed


section \<open>Evaluation of the example stores\<close>

lemmas eval_defs =
  NewDB_def NewDBExt_def empty_disk_def open_with_def NewDBidx_def pick_snapshot_def Idx_load_def
  PutExt_def Put_def Del_def memput_def memdel_def newIdx_def Get_def Idx_get_def Idx_set_def
  loadrec_def Slice_def applyBrowsingFlags_def syncneeded_def sync_def sync_flush_def
  checklogfile_def sync_key_def addtolog_def dat_record_def le_bytes_def dat_file_def
  append_dat_def read_dat_def Idx_addtolog_def Idx_deltolog_def Idx_writebuf_def
  forced_defrag_due_def defrag_due_def FreeData_def freerec_def entry_of_def
  NoCache_def YesCache_def NoBrowse_def YesBrowse_def BrAbort_def max_seq_def
  DefaultDefragPercentVal_def DefaultForcedDefragPerc_def DefaultMaxPending_def
  DefaultMaxPendingNoSync_def Let_def

lemma open_with_eq:
  "open_with vol ex =
     \<lparr>LogFile = False, LastValidLogPos = 0, DataSeq = 1,
      Idx = \<lparr>entries = [], ExtraSpaceUsed = 0, DiskSpaceNeeded = 0, MaxDatfileSequence = 0,
             DatfileIndex = 0\<rparr>,
      NoSyncMode = False, PendingRecords = [],
      Opts = (case ex of
                None \<Rightarrow> \<lparr>DefragPercentVal = 50, ForcedDefragPerc = 300, MaxPending = 2500,
                         MaxPendingNoSync = 10000\<rparr>
              | Some e \<Rightarrow> e),
      VolatileMode = vol, disk = empty_disk\<rparr>"
  by (simp add: eval_defs split: option.splits)

lemma NewDB_rewritten:
  "NewDB rewritten_disk False =
     \<lparr>LogFile = False, LastValidLogPos = 0, DataSeq = 2,
      Idx = \<lparr>entries = [(1, \<lparr>data = None, recDataSeq = 1, datpos = 16, datlen = 1, flags = 0\<rparr>)],
             ExtraSpaceUsed = 4, DiskSpaceNeeded = 1, MaxDatfileSequence = 1, DatfileIndex = 0\<rparr>,
      NoSyncMode = False, PendingRecords = [],
      Opts = \<lparr>DefragPercentVal = 50, ForcedDefragPerc = 300, MaxPending = 2500,
              MaxPendingNoSync = 10000\<rparr>,
      VolatileMode = False, disk = rewritten_disk\<rparr>"
  by (simp add: rewritten_disk_def eval_defs)

section \<open>Fields that the operations leave alone\<close>

lemma percent_threshold:
  fixes p :: u32 and d e :: u64
  assumes "unat p * unat d < 2 ^ 64"
  shows "(e > ucast p * d div 100) = (100 * unat e > unat p * unat d)"
proof -
  have up: "unat (ucast p :: u64) = unat p"
    by (simp add: unsigned_ucast_eq take_bit_nat_eq_self_iff order_less_trans [OF unsigned_less])
  have "unat (ucast p * d :: u64) = unat p * unat d"
    using assms by (simp add: unat_word_ariths up)
  then have "unat (ucast p * d div 100 :: u64) = (unat p * unat d) div 100"
    by (simp add: unat_div)
  then show ?thesis
    by (simp add: word_less_nat_alt) arith
qed

lemma defrag_fields:
  "DataSeq (defrag db) = DataSeq db + 1"
  "ExtraSpaceUsed (Idx (defrag db)) = 0"
  "PendingRecords (defrag db) = PendingRecords db"
  "VolatileMode (defrag db) = VolatileMode db"
  "NoSyncMode (defrag db) = NoSyncMode db"
  "Opts (defrag db) = Opts db"
  by (simp_all add: defrag_def Let_def checklogfile_def cleanupold_def split: prod.splits)

lemma sync_key_fields:
  "ExtraSpaceUsed (Idx (fst (sync_key db bidx k))) = ExtraSpaceUsed (Idx db)"
  "DiskSpaceNeeded (Idx (fst (sync_key db bidx k))) = DiskSpaceNeeded (Idx db)"
  "Opts (fst (sync_key db bidx k)) = Opts db"
  "DataSeq (fst (sync_key db bidx k)) = DataSeq db"
  "VolatileMode (fst (sync_key db bidx k)) = VolatileMode db"
  "NoSyncMode (fst (sync_key db bidx k)) = NoSyncMode db"
  by (simp_all add: sync_key_def addtolog_def Idx_set_def Let_def split: option.splits)

lemma sync_loop_fields:
  "ExtraSpaceUsed (Idx (fst (sync_loop db bidx ks))) = ExtraSpaceUsed (Idx db)
   \<and> DiskSpaceNeeded (Idx (fst (sync_loop db bidx ks))) = DiskSpaceNeeded (Idx db)
   \<and> Opts (fst (sync_loop db bidx ks)) = Opts db
   \<and> DataSeq (fst (sync_loop db bidx ks)) = DataSeq db
   \<and> VolatileMode (fst (sync_loop db bidx ks)) = VolatileMode db
   \<and> NoSyncMode (fst (sync_loop db bidx ks)) = NoSyncMode db"
proof (induction ks arbitrary: db bidx)
  case Nil
  show ?case by simp
next
  case (Cons k ks)
  show ?case
    using Cons.IH [of "fst (sync_key db bidx k)" "snd (sync_key db bidx k)"]
    by (simp add: split_def sync_key_fields)
qed

lemma checklogfile_fields:
  "Idx (checklogfile db) = Idx db" "Opts (checklogfile db) = Opts db"
  "DataSeq (checklogfile db) = DataSeq db" "PendingRecords (checklogfile db) = PendingRecords db"
  "VolatileMode (checklogfile db) = VolatileMode db" "NoSyncMode (checklogfile db) = NoSyncMode db"
  by (simp_all add: checklogfile_def)

lemma sync_flush_fields:
  "PendingRecords (sync_flush db) = []"
  "ExtraSpaceUsed (Idx (sync_flush db)) = ExtraSpaceUsed (Idx db)"
  "DiskSpaceNeeded (Idx (sync_flush db)) = DiskSpaceNeeded (Idx db)"
  "Opts (sync_flush db) = Opts db"
  "DataSeq (sync_flush db) = DataSeq db"
  "VolatileMode (sync_flush db) = VolatileMode db"
  "NoSyncMode (sync_flush db) = NoSyncMode db"
  using sync_loop_fields [of "checklogfile db" "[]" "PendingRecords db"]
  by (simp_all add: sync_flush_def Let_def split_def checklogfile_fields)

section \<open>The sync policy\<close>

text \<open>
  C2, as the code has it. Outside volatile mode \<open>Put\<close>, \<open>PutExt\<close> and \<open>Del\<close> change the
  index in memory, record the key in the pending set and then: if the pending set has
  grown beyond \<open>MaxPendingNoSync\<close>, in no-sync mode or not, \<open>sync\<close> runs, and the
  pending set is empty afterwards; else if the store is not in no-sync mode and the
  pending set has grown beyond \<open>MaxPending\<close>, \<open>sync\<close> runs; otherwise the mutation is
  held in memory: the key stays pending and the directory is as before. Where
  \<open>MaxPending\<close> is at most \<open>MaxPendingNoSync\<close>, as with the defaults, this is the rule
  in the words of the specification.
\<close>

theorem mutation_sync_policy:
  assumes "\<not> VolatileMode db"
  shows "(let pending = List.insert key (PendingRecords db);
              trigger = (length pending > unat (MaxPendingNoSync (Opts db))
                         \<or> (\<not> NoSyncMode db \<and> length pending > unat (MaxPending (Opts db))));
              held = (\<lambda>idx. db\<lparr>Idx := idx, PendingRecords := pending\<rparr>);
              put = held (memput (Idx db) key (newIdx val 0));
              putext = held (memput (Idx db) key (newIdx val fl));
              del = held (memdel (Idx db) key)
          in Put db key val = (if trigger then sync put else put)
           \<and> PutExt db key val fl = (if trigger then sync putext else putext)
           \<and> Del db key = (if trigger then sync del else del)
           \<and> PendingRecords (Put db key val) = (if trigger then [] else pending)
           \<and> PendingRecords (PutExt db key val fl) = (if trigger then [] else pending)
           \<and> PendingRecords (Del db key) = (if trigger then [] else pending)
           \<and> (\<not> trigger \<longrightarrow> disk (Put db key val) = disk db
                  \<and> disk (PutExt db key val fl) = disk db \<and> disk (Del db key) = disk db)
           \<and> (unat (MaxPending (Opts db)) \<le> unat (MaxPendingNoSync (Opts db)) \<longrightarrow>
                  trigger = claimed_sync_trigger put))"
  using assms
  by (auto simp: Let_def Put_def PutExt_def Del_def syncneeded_def sync_def sync_flush_fields
        defrag_fields claimed_sync_trigger_def)

theorem mutation_sync_policy_witness:
  "PendingRecords (Put (open_with False None) 1 [97]) = [1]
   \<and> disk (Put (open_with False None) 1 [97]) = empty_disk
   \<and> PendingRecords (Put (open_with False (Some small_batch)) 1 [97]) = []
   \<and> PendingRecords (Del (open_with False (Some small_batch)) 1) = []"
  using mutation_sync_policy [of "open_with False None" 1 "[97]" 0]
    mutation_sync_policy [of "open_with False (Some small_batch)" 1 "[97]" 0]
  by (auto simp: open_with_eq small_batch_def Let_def)

text \<open>
  The rule in the words of the specification fails where \<open>MaxPendingNoSync\<close> is below
  \<open>MaxPending\<close>: with \<open>MaxPending = 5\<close> and \<open>MaxPendingNoSync = 0\<close>, not in no-sync mode,
  the first \<open>Put\<close> makes one pending key; the rule says it is held in memory, the code
  syncs it (the pending set is empty and \<open>qdb.log\<close> has the put record).
\<close>

theorem claimed_sync_trigger_counterexample:
  "\<not> claimed_sync_trigger
        ((open_with False (Some small_batch))
           \<lparr>Idx := memput (Idx (open_with False (Some small_batch))) 1 (newIdx [97] 0),
            PendingRecords := [1]\<rparr>)
   \<and> PendingRecords (Put (open_with False (Some small_batch)) 1 [97]) = []
   \<and> qdb_log (disk (Put (open_with False (Some small_batch)) 1 [97])) = [PutRec 1 1 0 1 0]"
  by (simp add: open_with_eq small_batch_def claimed_sync_trigger_def eval_defs)

section \<open>The sync procedure: pending set and forced compaction\<close>

text \<open>
  C4. Outside volatile mode, \<open>sync\<close> of a non-empty pending set leaves the pending set
  empty. The index log and the data file are written by \<open>sync_flush\<close>, which clears the
  pending set and keeps \<open>ExtraSpaceUsed\<close> and \<open>DiskSpaceNeeded\<close>; if at that point
  \<open>ExtraSpaceUsed\<close> exceeds \<open>ForcedDefragPerc\<close> percent of \<open>DiskSpaceNeeded\<close>, \<open>sync\<close>
  goes on with \<open>defrag\<close> (the store moves to the next data-file generation), and
  otherwise it ends there. The percentage is the 64-bit product of the code, taken
  where it does not wrap around.
\<close>

theorem sync_clears_pending_then_compacts:
  assumes "\<not> VolatileMode db" and "PendingRecords db \<noteq> []"
    and "unat (ForcedDefragPerc (Opts db)) * unat (DiskSpaceNeeded (Idx db)) < 2 ^ 64"
  shows "PendingRecords (sync db) = []
       \<and> PendingRecords (sync_flush db) = []
       \<and> ExtraSpaceUsed (Idx (sync_flush db)) = ExtraSpaceUsed (Idx db)
       \<and> DiskSpaceNeeded (Idx (sync_flush db)) = DiskSpaceNeeded (Idx db)
       \<and> sync db =
           (if 100 * unat (ExtraSpaceUsed (Idx (sync_flush db)))
                 > unat (ForcedDefragPerc (Opts db)) * unat (DiskSpaceNeeded (Idx (sync_flush db)))
            then defrag (sync_flush db) else sync_flush db)
       \<and> DataSeq (sync db) =
           (if 100 * unat (ExtraSpaceUsed (Idx (sync_flush db)))
                 > unat (ForcedDefragPerc (Opts db)) * unat (DiskSpaceNeeded (Idx (sync_flush db)))
            then DataSeq db + 1 else DataSeq db)"
  using assms percent_threshold [OF assms(3), of "ExtraSpaceUsed (Idx db)"]
  by (simp add: sync_def Let_def forced_defrag_due_def sync_flush_fields defrag_fields)

theorem sync_clears_pending_then_compacts_witness:
  "PendingRecords (sync (Put (Put (open_with False None) 1 [1, 2, 3, 4]) 1 [5])) = []
   \<and> DataSeq (sync (Put (Put (open_with False None) 1 [1, 2, 3, 4]) 1 [5])) = 2
   \<and> DataSeq (sync (Put (open_with False None) 1 [1, 2, 3, 4])) = 1"
  using sync_clears_pending_then_compacts [of "Put (Put (open_with False None) 1 [1, 2, 3, 4]) 1 [5]"]
    sync_clears_pending_then_compacts [of "Put (open_with False None) 1 [1, 2, 3, 4]"]
  by (simp add: open_with_eq Put_def memput_def newIdx_def syncneeded_def Let_def
        sync_flush_fields defrag_fields)

text \<open>
  C9. With an empty pending set \<open>sync\<close> returns the store as it is: nothing is appended
  to the index log or to a data file, no locator and no flag changes, and there is no
  compaction, also where \<open>ExtraSpaceUsed\<close> is beyond the forced threshold (as in the
  store opened on \<open>rewritten_disk\<close>).
\<close>

theorem sync_nothing_pending:
  "PendingRecords db = [] \<Longrightarrow> sync db = db"
  by (simp add: sync_def)

theorem sync_nothing_pending_witness:
  "forced_defrag_due (NewDB rewritten_disk False)
   \<and> sync (NewDB rewritten_disk False) = NewDB rewritten_disk False"
  using sync_nothing_pending [of "NewDB rewritten_disk False"]
  by (simp add: NewDB_rewritten forced_defrag_due_def)

section \<open>Defrag\<close>

text \<open>
  C5, as the code has it. In volatile mode \<open>Defrag\<close> returns false and does nothing,
  whatever \<open>force\<close> is. Outside volatile mode it runs \<open>defrag\<close> and returns true exactly
  when \<open>force\<close> is true or \<open>ExtraSpaceUsed\<close> exceeds \<open>DefragPercentVal\<close> percent of
  \<open>DiskSpaceNeeded\<close>, and otherwise returns false and leaves the store as it is. When it
  returns true the store is at the next data-file generation with \<open>ExtraSpaceUsed = 0\<close>.
  The percentage is the 64-bit product of the code, taken where it does not wrap around.
\<close>

theorem Defrag_decision:
  assumes "unat (DefragPercentVal (Opts db)) * unat (DiskSpaceNeeded (Idx db)) < 2 ^ 64"
  shows "Defrag db force =
     (if VolatileMode db then (False, db)
      else if force \<or> 100 * unat (ExtraSpaceUsed (Idx db))
                        > unat (DefragPercentVal (Opts db)) * unat (DiskSpaceNeeded (Idx db))
           then (True, defrag db)
           else (False, db))
     \<and> (fst (Defrag db force) \<longrightarrow>
           DataSeq (snd (Defrag db force)) = DataSeq db + 1
           \<and> ExtraSpaceUsed (Idx (snd (Defrag db force))) = 0)"
  using percent_threshold [OF assms, of "ExtraSpaceUsed (Idx db)"]
  by (simp add: Defrag_def defrag_due_def Let_def defrag_fields)

theorem Defrag_decision_witness:
  "fst (Defrag (Put (Put (open_with False None) 1 [1, 2, 3]) 1 [4]) False)
   \<and> \<not> fst (Defrag (open_with False None) False)
   \<and> fst (Defrag (open_with False None) True)"
  using Defrag_decision [of "Put (Put (open_with False None) 1 [1, 2, 3]) 1 [4]" False]
    Defrag_decision [of "open_with False None" False]
    Defrag_decision [of "open_with False None" True]
  by (simp add: open_with_eq eval_defs)

text \<open>
  The claim without the guard fails in volatile mode: \<open>Defrag\<close> with \<open>force\<close> true
  returns false and leaves the store as it is.
\<close>

theorem Defrag_volatile_counterexample:
  "\<not> fst (Defrag (open_with True None) True)
   \<and> snd (Defrag (open_with True None) True) = open_with True None"
  by (simp add: open_with_eq Defrag_def)

section \<open>Browse\<close>

lemma Idx_browse_Browse:
  "snd (Idx_browse (Browse_walk d walk) es s) =
     visit_until_abort walk s (map (payload_of d) (filter (\<lambda>kv. \<not> no_browse (snd kv)) es))"
  by (induction es arbitrary: s)
     (auto simp: Browse_walk_def payload_of_def no_browse_def Let_def split_def)

lemma Idx_browse_BrowseAll:
  "snd (Idx_browse (BrowseAll_walk d walk) es s) = visit_until_abort walk s (map (payload_of d) es)"
  by (induction es arbitrary: s)
     (auto simp: BrowseAll_walk_def payload_of_def Let_def split_def)

lemma visit_until_abort_record_walk:
  "visit_until_abort (record_walk walk) (s, tr) ps
     = (visit_until_abort walk s ps, tr @ visited walk s ps)"
  by (induction ps arbitrary: s tr) (auto simp: record_walk_def split_def)

text \<open>
  C6. \<open>Browse\<close> calls \<open>walk\<close> on the entries whose \<open>no_browse\<close> flag is clear, in the
  order of the index, and \<open>BrowseAll\<close> on every entry; both stop after the first call
  whose result has \<open>BrAbort\<close> set and go on otherwise. This is stated for the state
  that the walk function is left in, whatever the walk function, and for the list of
  keys that a recording walk function has seen.
\<close>

theorem Browse_visits:
  "snd (Browse db walk s) =
     visit_until_abort walk s
       (map (payload_of (disk db)) (filter (\<lambda>kv. \<not> no_browse (snd kv)) (entries (Idx db))))
   \<and> snd (BrowseAll db walk s) =
     visit_until_abort walk s (map (payload_of (disk db)) (entries (Idx db)))
   \<and> snd (snd (Browse db (record_walk walk) (s, []))) =
     visited walk s
       (map (payload_of (disk db)) (filter (\<lambda>kv. \<not> no_browse (snd kv)) (entries (Idx db))))
   \<and> snd (snd (BrowseAll db (record_walk walk) (s, []))) =
     visited walk s (map (payload_of (disk db)) (entries (Idx db)))"
  by (simp add: Browse_def BrowseAll_def split_def Idx_browse_Browse Idx_browse_BrowseAll
        visit_until_abort_record_walk)

section \<open>Get\<close>

lemma YesCache_req:
  "YesCache AND NoBrowse = 0" "YesCache AND YesBrowse = 0" "YesCache AND NoCache = 0"
  "YesCache \<noteq> 0"
  by (simp_all add: NoBrowse_def NoCache_def YesCache_def YesBrowse_def)

lemma applyBrowsingFlags_YesCache:
  "applyBrowsingFlags idx YesCache = idx\<lparr>flags := flags idx AND NOT NoCache\<rparr>"
  by (simp add: applyBrowsingFlags_def YesCache_req)

lemma bit_clear_NoCache: "bit (f AND NOT NoCache) n = (bit f n \<and> n \<noteq> 1)"
  unfolding flag_consts_pow by (auto simp: bit_simps dest: bit_imp_le_length)

text \<open>
  C10. For a key that is in the index, \<open>Get\<close> returns the payload, loaded from the data
  file if it was not in memory, and leaves it in the entry; the entry's \<open>no_cache\<close> flag
  is clear afterwards, and its other flag bits, among them \<open>no_browse\<close>, and its
  \<open>DataSeq\<close>, \<open>datpos\<close> and \<open>datlen\<close> are as before; nothing else of the store changes.
  For a key that is not in the index \<open>Get\<close> returns \<open>nil\<close> and the store is unchanged.
\<close>

theorem Get_keeps_payload:
  "(Idx_get (Idx db) key = None \<longrightarrow> Get db key = (None, db))
   \<and> (\<forall>idx. Idx_get (Idx db) key = Some idx \<longrightarrow>
        (\<exists>idx'. Idx_get (Idx (snd (Get db key))) key = Some idx'
           \<and> snd (Get db key) = db\<lparr>Idx := Idx_set (Idx db) key idx'\<rparr>
           \<and> data idx' = Some (case data idx of
                                  None \<Rightarrow> read_dat (disk db) (recDataSeq idx) (datpos idx) (datlen idx)
                                | Some b \<Rightarrow> b)
           \<and> fst (Get db key) = data idx'
           \<and> \<not> no_cache idx'
           \<and> flags idx' = flags idx AND NOT NoCache
           \<and> no_browse idx' = no_browse idx
           \<and> recDataSeq idx' = recDataSeq idx \<and> datpos idx' = datpos idx
           \<and> datlen idx' = datlen idx))"
  by (auto simp: Get_def Let_def Idx_get_def Idx_set_def update_conv' applyBrowsingFlags_YesCache
        no_cache_bit no_browse_bit bit_clear_NoCache loadrec_def Slice_def split: option.splits)

theorem Get_keeps_payload_witness:
  "fst (Get (PutExt (open_with False None) 1 [118] NoCache) 1) = Some [118]
   \<and> fst (Get (PutExt (open_with False None) 1 [118] NoCache) 2) = None
   \<and> Idx_get (Idx (snd (Get (PutExt (open_with False None) 1 [118] NoCache) 1))) 1
       = Some \<lparr>data = Some [118], recDataSeq = 0, datpos = 0, datlen = 1, flags = 0\<rparr>"
  using Get_keeps_payload [of "PutExt (open_with False None) 1 [118] NoCache" 1]
    Get_keeps_payload [of "PutExt (open_with False None) 1 [118] NoCache" 2]
  by (simp add: open_with_eq eval_defs)


section \<open>The sync procedure: what is written for each pending key\<close>

lemma length_dat_record: "length (dat_record k v) = 12 + length v"
  by (simp add: dat_record_def le_bytes_def)

lemma drop_header: "drop 12 (dat_record k v @ g) = v @ g"
  by (simp add: dat_record_def le_bytes_def)

lemma read_record:
  "take (length v) (drop (length f + 12) (f @ dat_record k v @ g)) = v"
proof -
  have "drop (length f + 12) (f @ r) = drop 12 r" for r :: "byte list"
    by simp
  then have "drop (length f + 12) (f @ dat_record k v @ g) = v @ g"
    by (simp only: drop_header)
  then show ?thesis by simp
qed

lemma dat_file_append_dat:
  "dat_file (append_dat d s bs) s' = (if s' = s then dat_file d s @ bs else dat_file d s')"
  by (simp add: dat_file_def append_dat_def update_conv')

lemma sync_key_None:
  "Idx_get (Idx db) k = None \<Longrightarrow> sync_key db bidx k = (db, bidx @ [DelRec k])"
  by (simp add: sync_key_def Idx_deltolog_def)

lemma sync_key_Some:
  assumes "Idx_get (Idx db) k = Some rec"
  shows "sync_key db bidx k =
     (db\<lparr>LastValidLogPos := LastValidLogPos db + (12 + length (Slice rec)),
         disk := append_dat (disk db) (DataSeq db) (dat_record k (Slice rec)),
         Idx := Idx_set (Idx db) k
                  (rec\<lparr>datpos := of_nat (LastValidLogPos db), recDataSeq := DataSeq db,
                       data := (if no_cache rec then None else data rec)\<rparr>)\<rparr>,
      bidx @ [PutRec k (DataSeq db) (of_nat (LastValidLogPos db)) (datlen rec) (flags rec)])"
  using assms
  by (simp add: sync_key_def addtolog_def Idx_addtolog_def FreeData_def no_cache_def Let_def
        length_dat_record)

lemma Idx_get_Idx_set: "Idx_get (Idx_set idx k rec) k' = (if k' = k then Some rec else Idx_get idx k')"
  by (simp add: Idx_get_def Idx_set_def update_conv')

lemma sync_key_other:
  "k' \<noteq> k \<Longrightarrow> Idx_get (Idx (fst (sync_key db bidx k))) k' = Idx_get (Idx db) k'"
  by (cases "Idx_get (Idx db) k") (simp_all add: sync_key_None sync_key_Some Idx_get_Idx_set)

lemma sync_key_pos_ok:
  "pos_ok db \<Longrightarrow> pos_ok (fst (sync_key db bidx k))"
  by (cases "Idx_get (Idx db) k")
     (simp_all add: sync_key_None sync_key_Some pos_ok_def dat_file_append_dat length_dat_record)

lemma sync_key_pos_mono:
  "LastValidLogPos db \<le> LastValidLogPos (fst (sync_key db bidx k))"
  by (cases "Idx_get (Idx db) k") (simp_all add: sync_key_None sync_key_Some)

lemma sync_key_recs:
  "\<exists>r. snd (sync_key db bidx k) = bidx @ [r] \<and> logrec_key r = k"
  by (cases "Idx_get (Idx db) k") (simp_all add: sync_key_None sync_key_Some)

lemma sync_key_file:
  "\<exists>bs. dat_file (disk (fst (sync_key db bidx k))) s = dat_file (disk db) s @ bs"
  by (cases "Idx_get (Idx db) k") (simp_all add: sync_key_None sync_key_Some dat_file_append_dat)

lemma sync_key_synced_self:
  assumes "Idx_get (Idx db) k = Some rec" and "pos_ok db" and "LastValidLogPos db < 2 ^ 32"
    and "start \<le> LastValidLogPos db"
  shows "synced k rec (DataSeq db) start (fst (sync_key db bidx k)) (snd (sync_key db bidx k))"
proof -
  have u: "unat (of_nat (LastValidLogPos db) :: u32) = LastValidLogPos db"
    using assms(3) by (simp add: unat_of_nat)
  have f: "LastValidLogPos db = length (dat_file (disk db) (DataSeq db))"
    using assms(2) by (simp add: pos_ok_def)
  show ?thesis
    unfolding synced_def sync_key_Some [OF assms(1)]
    using read_record [of "Slice rec" "dat_file (disk db) (DataSeq db)" k "[]"]
    using assms(4)
    by (simp add: Idx_get_Idx_set dat_file_append_dat u length_dat_record f [symmetric])
qed

lemma sync_key_synced_other:
  assumes "synced k rec seq start db recs" and "k' \<noteq> k"
  shows "synced k rec seq start (fst (sync_key db recs k')) (snd (sync_key db recs k'))"
proof -
  obtain bs where bs: "dat_file (disk (fst (sync_key db recs k'))) seq = dat_file (disk db) seq @ bs"
    using sync_key_file by blast
  obtain r where r: "snd (sync_key db recs k') = recs @ [r]"
    using sync_key_recs by blast
  show ?thesis
    using assms unfolding synced_def
    by (auto simp: sync_key_other [OF assms(2) [symmetric]] bs r)
qed


lemma sync_key_qdb_log: "qdb_log (disk (fst (sync_key db bidx k))) = qdb_log (disk db)"
  by (cases "Idx_get (Idx db) k") (simp_all add: sync_key_None sync_key_Some append_dat_def)

lemma sync_loop_synced_keep:
  "synced k rec seq start db recs \<Longrightarrow> k \<notin> set ks \<Longrightarrow>
     synced k rec seq start (fst (sync_loop db recs ks)) (snd (sync_loop db recs ks))"
proof (induction ks arbitrary: db recs)
  case Nil
  then show ?case by simp
next
  case (Cons k' ks)
  from Cons.prems have "synced k rec seq start (fst (sync_key db recs k')) (snd (sync_key db recs k'))"
    by (intro sync_key_synced_other) auto
  from Cons.IH [OF this] Cons.prems(2) show ?case
    by (simp add: split_def)
qed

lemma sync_loop_other:
  "k \<notin> set ks \<Longrightarrow> Idx_get (Idx (fst (sync_loop db recs ks))) k = Idx_get (Idx db) k"
  by (induction ks arbitrary: db recs) (auto simp: split_def sync_key_other)

lemma sync_loop_recs:
  "\<exists>rs. snd (sync_loop db recs ks) = recs @ rs \<and> map logrec_key rs = ks"
proof (induction ks arbitrary: db recs)
  case Nil
  show ?case by simp
next
  case (Cons k ks)
  obtain r where r: "snd (sync_key db recs k) = recs @ [r]" "logrec_key r = k"
    using sync_key_recs by blast
  obtain rs where rs: "snd (sync_loop (fst (sync_key db recs k)) (recs @ [r]) ks) = (recs @ [r]) @ rs"
     "map logrec_key rs = ks"
    using Cons.IH by blast
  show ?case
    by (rule exI [of _ "r # rs"]) (simp add: split_def r rs)
qed

lemma sync_loop_qdb_log: "qdb_log (disk (fst (sync_loop db recs ks))) = qdb_log (disk db)"
  by (induction ks arbitrary: db recs) (simp_all add: split_def sync_key_qdb_log)

lemma sync_loop_pos_mono:
  "LastValidLogPos db \<le> LastValidLogPos (fst (sync_loop db recs ks))"
proof (induction ks arbitrary: db recs)
  case Nil
  show ?case by simp
next
  case (Cons k ks)
  show ?case
    using Cons.IH [of "fst (sync_key db recs k)" "snd (sync_key db recs k)"]
      sync_key_pos_mono [of db recs k]
    by (simp add: split_def)
qed

lemma sync_loop_each:
  assumes "distinct ks" and "pos_ok db" and "LastValidLogPos (fst (sync_loop db recs ks)) \<le> 2 ^ 32"
    and "k \<in> set ks" and "start \<le> LastValidLogPos db"
  shows "case Idx_get (Idx db) k of
           None \<Rightarrow> DelRec k \<in> set (snd (sync_loop db recs ks))
                    \<and> Idx_get (Idx (fst (sync_loop db recs ks))) k = None
         | Some rec \<Rightarrow> synced k rec (DataSeq db) start (fst (sync_loop db recs ks))
                          (snd (sync_loop db recs ks))"
  using assms
proof (induction ks arbitrary: db recs)
  case Nil
  then show ?case by simp
next
  case (Cons k0 ks)
  let ?db1 = "fst (sync_key db recs k0)" and ?r1 = "snd (sync_key db recs k0)"
  have loop: "sync_loop db recs (k0 # ks) = sync_loop ?db1 ?r1 ks"
    by (simp add: split_def)
  show ?case
  proof (cases "k = k0")
    case True
    with Cons.prems have notin: "k \<notin> set ks" by simp
    show ?thesis
    proof (cases "Idx_get (Idx db) k")
      case None
      obtain rs where "snd (sync_loop ?db1 ?r1 ks) = ?r1 @ rs"
        using sync_loop_recs by blast
      then have "DelRec k \<in> set (snd (sync_loop ?db1 ?r1 ks))"
        using None True by (simp add: sync_key_None)
      moreover have "Idx_get (Idx (fst (sync_loop ?db1 ?r1 ks))) k = None"
        using None True notin by (simp add: sync_loop_other sync_key_None)
      ultimately show ?thesis
        using None by (simp add: split_def)
    next
      case (Some rec)
      have "LastValidLogPos db < LastValidLogPos ?db1"
        using Some True by (simp add: sync_key_Some)
      also have "\<dots> \<le> LastValidLogPos (fst (sync_loop ?db1 ?r1 ks))"
        by (rule sync_loop_pos_mono)
      finally have "LastValidLogPos db < 2 ^ 32"
        using Cons.prems(3) by (simp add: split_def)
      then have "synced k rec (DataSeq db) start (fst (sync_key db recs k)) (snd (sync_key db recs k))"
        using Some Cons.prems(2,5) by (intro sync_key_synced_self)
      then have "synced k rec (DataSeq db) start ?db1 ?r1"
        using True by simp
      from sync_loop_synced_keep [OF this notin] Some show ?thesis
        by (simp add: split_def)
    qed
  next
    case False
    have "distinct ks" using Cons.prems by simp
    moreover have "pos_ok ?db1" using Cons.prems by (simp add: sync_key_pos_ok)
    moreover have "LastValidLogPos (fst (sync_loop ?db1 ?r1 ks)) \<le> 2 ^ 32"
      using Cons.prems(3) by (simp add: split_def)
    moreover from False Cons.prems have "k \<in> set ks" by simp
    moreover have "start \<le> LastValidLogPos ?db1"
      using Cons.prems(5) sync_key_pos_mono [of db recs k0] by simp
    ultimately have "case Idx_get (Idx ?db1) k of
           None \<Rightarrow> DelRec k \<in> set (snd (sync_loop ?db1 ?r1 ks))
                    \<and> Idx_get (Idx (fst (sync_loop ?db1 ?r1 ks))) k = None
         | Some rec \<Rightarrow> synced k rec (DataSeq ?db1) start (fst (sync_loop ?db1 ?r1 ks))
                          (snd (sync_loop ?db1 ?r1 ks))"
      by (rule Cons.IH)
    then show ?thesis
      using False
      by (auto simp: split_def sync_key_other sync_key_fields split: option.splits)
  qed
qed


lemma checklogfile_pos_ok:
  "(LogFile db \<Longrightarrow> pos_ok db) \<Longrightarrow> pos_ok (checklogfile db)"
  by (simp add: checklogfile_def pos_ok_def dat_file_append_dat)

lemma checklogfile_disk:
  "dat_file (disk (checklogfile db)) s = dat_file (disk db) s"
  "qdb_log (disk (checklogfile db)) = qdb_log (disk db)"
  by (simp add: checklogfile_def dat_file_append_dat) (simp add: checklogfile_def append_dat_def)

lemma checklogfile_pos:
  "pos_ok (checklogfile db) \<Longrightarrow>
     LastValidLogPos (checklogfile db) = length (dat_file (disk db) (DataSeq db))"
  by (simp add: pos_ok_def checklogfile_disk checklogfile_fields)

lemma synced_frame:
  "Idx db2 = Idx db1 \<Longrightarrow> dat_files (disk db2) = dat_files (disk db1) \<Longrightarrow>
     synced k rec seq start db2 recs = synced k rec seq start db1 recs"
  by (simp add: synced_def dat_file_def)

text \<open>
  \<open>sync_flush\<close> is the sync procedure up to the clearing of the pending set. It appends
  to the index log one record for each key of the pending set, in the order of the
  iteration: a delete record for a key that is not in the index, and for a key that is
  in the index the put record of \<open>synced\<close>, after the slice that the entry holds in
  memory has been appended to the data file. The pending keys are distinct (a Go map),
  the position of an open data file is its end, and the data file stays within the
  range of the 32-bit offsets.
\<close>

lemma sync_flush_log_and_entries:
  assumes "distinct (PendingRecords db)"
    and "LogFile db \<Longrightarrow> LastValidLogPos db = length (dat_file (disk db) (DataSeq db))"
    and "LastValidLogPos (sync_flush db) \<le> 2 ^ 32"
  shows "\<exists>recs. qdb_log (disk (sync_flush db)) = qdb_log (disk db) @ recs
           \<and> map logrec_key recs = PendingRecords db
           \<and> (\<forall>k \<in> set (PendingRecords db).
                case Idx_get (Idx db) k of
                  None \<Rightarrow> DelRec k \<in> set recs \<and> Idx_get (Idx (sync_flush db)) k = None
                | Some rec \<Rightarrow>
                    synced k rec (DataSeq db) (length (dat_file (disk db) (DataSeq db)))
                      (sync_flush db) recs)"
proof -
  let ?c = "checklogfile db"
  let ?db1 = "fst (sync_loop ?c [] (PendingRecords db))"
  let ?recs = "snd (sync_loop ?c [] (PendingRecords db))"
  have flush: "sync_flush db = ?db1\<lparr>disk := Idx_writebuf (disk ?db1) ?recs, PendingRecords := []\<rparr>"
    by (simp add: sync_flush_def Let_def split_def)
  have ok: "pos_ok ?c"
    using assms(2) by (intro checklogfile_pos_ok) (simp add: pos_ok_def)
  have bound: "LastValidLogPos ?db1 \<le> 2 ^ 32"
    using assms(3) by (simp add: flush)
  have keys: "map logrec_key ?recs = PendingRecords db"
    using sync_loop_recs [of ?c "[]" "PendingRecords db"] by auto
  have log: "qdb_log (disk (sync_flush db)) = qdb_log (disk db) @ ?recs"
    by (simp add: flush Idx_writebuf_def sync_loop_qdb_log checklogfile_disk)
  have each: "case Idx_get (Idx db) k of
                  None \<Rightarrow> DelRec k \<in> set ?recs \<and> Idx_get (Idx (sync_flush db)) k = None
                | Some rec \<Rightarrow>
                    synced k rec (DataSeq db) (length (dat_file (disk db) (DataSeq db)))
                      (sync_flush db) ?recs"
    if k: "k \<in> set (PendingRecords db)" for k
  proof -
    have fr: "synced k rec seq start (sync_flush db) ?recs = synced k rec seq start ?db1 ?recs"
      for rec seq start
      by (rule synced_frame) (simp_all add: flush Idx_writebuf_def)
    have st: "length (dat_file (disk db) (DataSeq db)) \<le> LastValidLogPos ?c"
      using checklogfile_pos [OF ok] by simp
    have "Idx (sync_flush db) = Idx ?db1"
      by (simp add: flush)
    with sync_loop_each [OF assms(1) ok bound k st] show ?thesis
      by (simp add: checklogfile_fields fr split: option.splits)
  qed
  show ?thesis
    using log keys each by blast
qed


section \<open>Compaction\<close>

lemma loadrec_fields:
  "flags (loadrec d e) = flags e" "datlen (loadrec d e) = datlen e"
  "recDataSeq (loadrec d e) = recDataSeq e" "datpos (loadrec d e) = datpos e"
  "data (loadrec d e) = Some (Slice (loadrec d e))"
  by (simp_all add: loadrec_def Slice_def split: option.splits)

lemma loadrec_cong:
  "(\<And>s. dat_file d s = dat_file d' s) \<Longrightarrow> loadrec d e = loadrec d' e"
  by (simp add: loadrec_def read_dat_def split: option.splits)

lemma defrag_walk_eq:
  "defrag_walk d seq k e (pos, buf, used) =
     (True,
      (loadrec d e)\<lparr>datpos := of_nat pos, recDataSeq := seq,
                     data := (if no_cache e then None else Some (Slice (loadrec d e)))\<rparr>,
      pos + (12 + length (Slice (loadrec d e))),
      buf @ dat_record k (Slice (loadrec d e)),
      List.insert seq used)"
  using loadrec_fields(5) [of d e]
  by (simp add: defrag_walk_def addtolog_def Let_def freerec_def FreeData_def no_cache_def
        loadrec_fields(1) length_dat_record)

lemma browse_defrag_ext:
  "\<exists>ext. fst (snd (snd (Idx_browse (defrag_walk d seq) es (pos, buf, used)))) = buf @ ext
      \<and> fst (snd (Idx_browse (defrag_walk d seq) es (pos, buf, used))) = pos + length ext
      \<and> map fst (fst (Idx_browse (defrag_walk d seq) es (pos, buf, used))) = map fst es
      \<and> set (snd (snd (snd (Idx_browse (defrag_walk d seq) es (pos, buf, used)))))
           = set used \<union> (if es = [] then {} else {seq})"
proof (induction es arbitrary: pos buf used)
  case Nil
  show ?case by simp
next
  case (Cons kv es)
  obtain k e where kv: "kv = (k, e)" by (cases kv)
  let ?p = "Slice (loadrec d e)"
  let ?r = "Idx_browse (defrag_walk d seq) es
              (pos + (12 + length ?p), buf @ dat_record k ?p, List.insert seq used)"
  from Cons.IH [of "pos + (12 + length ?p)" "buf @ dat_record k ?p" "List.insert seq used"]
  obtain ext where ext: "fst (snd (snd ?r)) = (buf @ dat_record k ?p) @ ext"
    "fst (snd ?r) = pos + (12 + length ?p) + length ext"
    "map fst (fst ?r) = map fst es"
    "set (snd (snd (snd ?r))) = set (List.insert seq used) \<union> (if es = [] then {} else {seq})"
    by blast
  show ?case
    by (rule exI [of _ "dat_record k ?p @ ext"])
       (auto simp: kv defrag_walk_eq split_def ext length_dat_record)
qed

lemma browse_defrag_entry:
  assumes "pos = base + length buf" and "map_of es k = Some e"
  shows "\<exists>e'. map_of (fst (Idx_browse (defrag_walk d seq) es (pos, buf, used))) k = Some e'
           \<and> rewritten e (Slice (loadrec d e)) seq base
                (fst (snd (snd (Idx_browse (defrag_walk d seq) es (pos, buf, used))))) e'"
  using assms
proof (induction es arbitrary: pos buf used)
  case Nil
  then show ?case by simp
next
  case (Cons kv es)
  obtain k0 e0 where kv: "kv = (k0, e0)" by (cases kv)
  let ?p = "Slice (loadrec d e0)"
  let ?r = "Idx_browse (defrag_walk d seq) es
              (pos + (12 + length ?p), buf @ dat_record k0 ?p, List.insert seq used)"
  have step: "Idx_browse (defrag_walk d seq) (kv # es) (pos, buf, used) =
      ((k0, (loadrec d e0)\<lparr>datpos := of_nat pos, recDataSeq := seq,
                     data := (if no_cache e0 then None else Some ?p)\<rparr>) # fst ?r, snd ?r)"
    by (simp add: kv defrag_walk_eq split_def)
  show ?case
  proof (cases "k = k0")
    case True
    with Cons.prems kv have e: "e = e0" by simp
    obtain ext where ext: "fst (snd (snd ?r)) = (buf @ dat_record k0 ?p) @ ext"
      using browse_defrag_ext [of d seq es] by blast
    let ?e' = "(loadrec d e0)\<lparr>datpos := of_nat pos, recDataSeq := seq,
                     data := (if no_cache e0 then None else Some ?p)\<rparr>"
    have "\<exists>off. datpos ?e' = of_nat (base + off)
            \<and> off + 12 + length ?p \<le> length ((buf @ dat_record k0 ?p) @ ext)
            \<and> take (length ?p) (drop (off + 12) ((buf @ dat_record k0 ?p) @ ext)) = ?p"
    proof (intro exI [of _ "length buf"] conjI)
      show "datpos ?e' = of_nat (base + length buf)"
        using Cons.prems(1) by simp
      show "length buf + 12 + length ?p \<le> length ((buf @ dat_record k0 ?p) @ ext)"
        by (simp add: length_dat_record)
      show "take (length ?p) (drop (length buf + 12) ((buf @ dat_record k0 ?p) @ ext)) = ?p"
        using read_record [of ?p buf k0 ext] by (simp only: append_assoc)
    qed
    then have "rewritten e0 ?p seq base (fst (snd (snd ?r))) ?e'"
      unfolding rewritten_def ext by (simp add: loadrec_fields)
    then show ?thesis
      unfolding step using True by (simp add: e)
  next
    case False
    with Cons.prems kv have "map_of es k = Some e" by simp
    moreover have "pos + (12 + length ?p) = base + length (buf @ dat_record k0 ?p)"
      using Cons.prems(1) by (simp add: length_dat_record)
    ultimately obtain e' where "map_of (fst ?r) k = Some e'"
      "rewritten e (Slice (loadrec d e)) seq base (fst (snd (snd ?r))) e'"
      using Cons.IH [of "pos + (12 + length ?p)" "buf @ dat_record k0 ?p" "List.insert seq used"]
      by blast
    then show ?thesis
      unfolding step using False by simp
  qed
qed


lemma defrag_unfold:
  "defrag db =
     (case defrag_browse db of
        (es, pos, bufile, used) \<Rightarrow>
          (case writedatfile ((Idx db)\<lparr>entries := es\<rparr>)
                  (append_dat (append_dat (disk db) (DataSeq db + 1) []) (DataSeq db + 1) bufile) of
             (idx, d) \<Rightarrow>
               db\<lparr>DataSeq := DataSeq db + 1, LogFile := True, LastValidLogPos := pos,
                  Idx := idx\<lparr>ExtraSpaceUsed := 0\<rparr>,
                  disk := d\<lparr>dat_files := filter (\<lambda>(seq, f). seq \<in> set used) (dat_files d)\<rparr>\<rparr>))"
  by (simp add: defrag_def defrag_browse_def checklogfile_def cleanupold_def Let_def split_def)

lemma writedatfile_fields:
  "entries (fst (writedatfile idx d)) = entries idx"
  "dat_files (snd (writedatfile idx d)) = dat_files d"
  "qdb_log (snd (writedatfile idx d)) = []"
  by (simp_all add: writedatfile_def Let_def)

lemma defrag_entries: "entries (Idx (defrag db)) = fst (defrag_browse db)"
  by (simp add: defrag_unfold split_def writedatfile_fields)

lemma defrag_browse_facts:
  "\<exists>ext. fst (snd (snd (defrag_browse db))) = ext
      \<and> fst (snd (defrag_browse db)) = length (dat_file (disk db) (DataSeq db + 1)) + length ext
      \<and> map fst (fst (defrag_browse db)) = map fst (entries (Idx db))
      \<and> set (snd (snd (snd (defrag_browse db))))
           = (if entries (Idx db) = [] then {} else {DataSeq db + 1})"
  unfolding defrag_browse_def
  using browse_defrag_ext [of "append_dat (disk db) (DataSeq db + 1) []" "DataSeq db + 1"
      "entries (Idx db)" "length (dat_file (disk db) (DataSeq db + 1))" "[]" "[]"]
  by auto

lemma dat_file_filter:
  "dat_file (d\<lparr>dat_files := filter (\<lambda>p. fst p \<in> S) (dat_files d)\<rparr>) s
     = (if s \<in> S then dat_file d s else [])"
proof (cases "map_of (dat_files d) s")
  case None
  then have "map_of (filter (\<lambda>p. fst p \<in> S) (dat_files d)) s = None"
    by (auto simp: map_of_eq_None_iff)
  with None show ?thesis by (simp add: dat_file_def)
next
  case (Some f)
  show ?thesis
  proof (cases "s \<in> S")
    case True
    with Some have "map_of (filter (\<lambda>(seq, f). seq \<in> S) (dat_files d)) s = Some f"
      by (intro map_of_filter_in) auto
    with Some True show ?thesis by (simp add: dat_file_def split_def)
  next
    case False
    then have "map_of (filter (\<lambda>p. fst p \<in> S) (dat_files d)) s = None"
      by (auto simp: map_of_eq_None_iff)
    with False show ?thesis by (simp add: dat_file_def)
  qed
qed

lemma dat_file_writedatfile: "dat_file (snd (writedatfile idx d)) s = dat_file d s"
  by (simp add: dat_file_def writedatfile_fields)

lemma defrag_disk:
  "disk (defrag db) =
     (snd (writedatfile ((Idx db)\<lparr>entries := fst (defrag_browse db)\<rparr>)
             (append_dat (append_dat (disk db) (DataSeq db + 1) []) (DataSeq db + 1)
                (fst (snd (snd (defrag_browse db)))))))
       \<lparr>dat_files := filter (\<lambda>p. fst p \<in> set (snd (snd (snd (defrag_browse db)))))
          (dat_files (snd (writedatfile ((Idx db)\<lparr>entries := fst (defrag_browse db)\<rparr>)
             (append_dat (append_dat (disk db) (DataSeq db + 1) []) (DataSeq db + 1)
                (fst (snd (snd (defrag_browse db))))))))\<rparr>"
  by (simp add: defrag_unfold split_def)

lemma defrag_dat_file:
  assumes "entries (Idx db) \<noteq> []"
  shows "dat_file (disk (defrag db)) (DataSeq db + 1)
       = dat_file (disk db) (DataSeq db + 1) @ fst (snd (snd (defrag_browse db)))"
proof -
  have "DataSeq db + 1 \<in> set (snd (snd (snd (defrag_browse db))))"
    using defrag_browse_facts [of db] assms by simp
  then show ?thesis
    unfolding defrag_disk dat_file_filter
    by (simp add: dat_file_writedatfile dat_file_append_dat)
qed

lemma rewritten_shift:
  assumes "rewritten e p seq (length old) buf e'"
  shows "rewritten e p seq 0 (old @ buf) e'"
proof -
  from assms obtain off where off: "datpos e' = of_nat (length old + off)"
    "off + 12 + length p \<le> length buf" "take (length p) (drop (off + 12) buf) = p"
    and rest: "recDataSeq e' = seq" "flags e' = flags e" "datlen e' = datlen e"
      "data e' = (if no_cache e then None else Some p)"
    unfolding rewritten_def by blast
  have "take (length p) (drop (length old + off + 12) (old @ buf)) = p"
    using off(3) by (simp add: add.assoc)
  with off(1,2) rest show ?thesis
    unfolding rewritten_def
    by (intro conjI exI [of _ "length old + off"]) simp_all
qed

lemma defrag_entry:
  assumes "Idx_get (Idx db) k = Some e"
  shows "\<exists>e'. Idx_get (Idx (defrag db)) k = Some e'
           \<and> rewritten e (Slice (loadrec (disk db) e)) (DataSeq db + 1) 0
                (dat_file (disk (defrag db)) (DataSeq db + 1)) e'"
proof -
  let ?d = "append_dat (disk db) (DataSeq db + 1) []"
  have m: "map_of (entries (Idx db)) k = Some e"
    using assms by (simp add: Idx_get_def)
  then have ne: "entries (Idx db) \<noteq> []" by auto
  have ld: "loadrec ?d e = loadrec (disk db) e"
    by (rule loadrec_cong) (simp add: dat_file_append_dat)
  from browse_defrag_entry [of "length (dat_file (disk db) (DataSeq db + 1))"
      "length (dat_file (disk db) (DataSeq db + 1))" "[]" "entries (Idx db)" k e ?d
      "DataSeq db + 1" "[]"] m
  obtain e' where e': "map_of (fst (defrag_browse db)) k = Some e'"
    "rewritten e (Slice (loadrec (disk db) e)) (DataSeq db + 1)
       (length (dat_file (disk db) (DataSeq db + 1))) (fst (snd (snd (defrag_browse db)))) e'"
    unfolding defrag_browse_def ld by auto
  show ?thesis
    using e'(1) rewritten_shift [OF e'(2)]
    by (simp add: Idx_get_def defrag_entries defrag_dat_file [OF ne])
qed


lemma max_seq_Cons: "max_seq (kv # es) m = max_seq es (max (recDataSeq (snd kv)) m)"
  by (simp add: max_seq_def)

lemma max_seq_mono: "m \<le> max_seq es m"
proof (induction es arbitrary: m)
  case Nil
  show ?case by (simp add: max_seq_def)
next
  case (Cons kv es)
  have "m \<le> max (recDataSeq (snd kv)) m" by simp
  also have "\<dots> \<le> max_seq es (max (recDataSeq (snd kv)) m)" by (rule Cons.IH)
  finally show ?case by (simp add: max_seq_Cons)
qed

lemma max_seq_ge: "kv \<in> set es \<Longrightarrow> recDataSeq (snd kv) \<le> max_seq es m"
proof (induction es arbitrary: m)
  case Nil
  then show ?case by simp
next
  case (Cons a es)
  show ?case
  proof (cases "kv = a")
    case True
    have "recDataSeq (snd a) \<le> max (recDataSeq (snd a)) m" by simp
    also have "\<dots> \<le> max_seq es (max (recDataSeq (snd a)) m)" by (rule max_seq_mono)
    finally show ?thesis using True by (simp add: max_seq_Cons)
  next
    case False
    with Cons.prems have "kv \<in> set es" by simp
    from Cons.IH [OF this] show ?thesis by (simp add: max_seq_Cons)
  qed
qed

lemma browse_defrag_all_seq:
  "kv \<in> set (fst (Idx_browse (defrag_walk d seq) es c)) \<Longrightarrow> recDataSeq (snd kv) = seq"
proof (induction es arbitrary: c)
  case Nil
  then show ?case by simp
next
  case (Cons a es)
  obtain k e where a: "a = (k, e)" by (cases a)
  obtain pos buf used where c: "c = (pos, buf, used)" by (cases c)
  from Cons.prems Cons.IH show ?case
    by (auto simp: a c defrag_walk_eq split_def)
qed

lemma defrag_snapshot:
  "qdb_log (disk (defrag db)) = []"
  "1 - DatfileIndex (Idx db) = 0 \<Longrightarrow>
     qdb_0 (disk (defrag db))
       = Some \<lparr>snap_seq = max_seq (fst (defrag_browse db)) (MaxDatfileSequence (Idx db)),
               snap_recs = map locator (fst (defrag_browse db))\<rparr>
     \<and> qdb_1 (disk (defrag db)) = qdb_1 (disk db)"
  "1 - DatfileIndex (Idx db) \<noteq> 0 \<Longrightarrow>
     qdb_1 (disk (defrag db))
       = Some \<lparr>snap_seq = max_seq (fst (defrag_browse db)) (MaxDatfileSequence (Idx db)),
               snap_recs = map locator (fst (defrag_browse db))\<rparr>
     \<and> qdb_0 (disk (defrag db)) = qdb_0 (disk db)"
  by (simp_all add: defrag_disk writedatfile_def append_dat_def Let_def)

lemma defrag_pick_snapshot:
  assumes "entries (Idx db) \<noteq> []"
    and "\<And>s. qdb_0 (disk db) = Some s \<or> qdb_1 (disk db) = Some s \<Longrightarrow> snap_seq s < DataSeq db + 1"
  shows "pick_snapshot (disk (defrag db))
           = Some (1 - DatfileIndex (Idx db),
                   \<lparr>snap_seq = max_seq (fst (defrag_browse db)) (MaxDatfileSequence (Idx db)),
                    snap_recs = map locator (fst (defrag_browse db))\<rparr>)"
proof -
  let ?es = "fst (defrag_browse db)"
  have "map fst ?es = map fst (entries (Idx db))"
    using defrag_browse_facts [of db] by simp
  with assms(1) have "?es \<noteq> []" by auto
  then obtain kv where kv: "kv \<in> set ?es" by (cases ?es) auto
  then have "recDataSeq (snd kv) = DataSeq db + 1"
    unfolding defrag_browse_def by (rule browse_defrag_all_seq)
  with max_seq_ge [OF kv, of "MaxDatfileSequence (Idx db)"]
  have ge: "DataSeq db + 1 \<le> max_seq ?es (MaxDatfileSequence (Idx db))" by simp
  show ?thesis
  proof (cases "1 - DatfileIndex (Idx db) = 0")
    case True
    have "\<not> max_seq ?es (MaxDatfileSequence (Idx db)) < snap_seq s" if "qdb_1 (disk db) = Some s" for s
      using assms(2) [of s] that ge by auto
    then show ?thesis
      using defrag_snapshot(2) [OF True] True
      by (auto simp: pick_snapshot_def split: option.splits)
  next
    case False
    then have one: "1 - DatfileIndex (Idx db) = 1" by arith
    have "snap_seq s < max_seq ?es (MaxDatfileSequence (Idx db))" if "qdb_0 (disk db) = Some s" for s
      using assms(2) [of s] that ge by auto
    then show ?thesis
      using defrag_snapshot(3) [OF False] one
      by (auto simp: pick_snapshot_def split: option.splits)
  qed
qed


lemma Idx_get_memput:
  "Idx_get (memput idx k rec) k' = (if k' = k then Some rec else Idx_get idx k')"
  by (simp add: Idx_get_def memput_def Let_def update_conv' split: option.splits)

lemma fold_memput_get:
  "Idx_get (fold (\<lambda>(k, loc) idx. memput idx k (entry_of loc)) recs idx) k
     = (case map_of (rev recs) k of None \<Rightarrow> Idx_get idx k | Some loc \<Rightarrow> Some (entry_of loc))"
proof (induction recs arbitrary: idx)
  case Nil
  show ?case by simp
next
  case (Cons a recs)
  obtain k0 loc0 where a: "a = (k0, loc0)" by (cases a)
  show ?case
    by (simp add: a Cons.IH Idx_get_memput map_add_def split: option.splits)
qed

lemma map_of_rev_distinct:
  "distinct (map fst xs) \<Longrightarrow> map_of (rev xs) = map_of xs"
proof (induction xs)
  case Nil
  show ?case by simp
next
  case (Cons a xs)
  then have "map_of (rev xs) = map_of xs" and "map_of xs (fst a) = None"
    by (simp_all add: map_of_eq_None_iff)
  then show ?case
    by (cases a) (auto simp: map_add_def fun_eq_iff split: option.splits)
qed

lemma locator_keys: "fst \<circ> locator = fst"
  by (simp add: locator_def fun_eq_iff)

lemma map_of_locator:
  "map_of (map locator es) k
     = map_option (\<lambda>e. (recDataSeq e, datpos e, datlen e, flags e)) (map_of es k)"
  by (induction es) (auto simp: locator_def)

lemma NewDBidx_get:
  assumes "pick_snapshot d = Some (slot, snap)" and "qdb_log d = []"
    and "distinct (map fst (snap_recs snap))"
  shows "Idx_get (NewDBidx d) k = map_option entry_of (map_of (snap_recs snap) k)"
  using assms
  by (simp add: NewDBidx_def Let_def Idx_get_def [of "_\<lparr>MaxDatfileSequence := _\<rparr>"]
        Idx_get_def [of "_\<lparr>MaxDatfileSequence := _, DatfileIndex := _\<rparr>"]
        fold_memput_get [unfolded Idx_get_def] map_of_rev_distinct split: option.splits)


lemma browse_load_entry:
  "map_of es k = Some e \<Longrightarrow>
     \<exists>e'. map_of (fst (Idx_browse (load_walk d w) es s)) k = Some e'
       \<and> recDataSeq e' = recDataSeq e \<and> datpos e' = datpos e \<and> datlen e' = datlen e
       \<and> data e' = data (loadrec d e)"
proof (induction es arbitrary: s)
  case Nil
  then show ?case by simp
next
  case (Cons a es)
  obtain k0 e0 where a: "a = (k0, e0)" by (cases a)
  show ?case
  proof (cases "k = k0")
    case True
    with Cons.prems a have "e = e0" by simp
    with True show ?thesis
      by (auto simp: a load_walk_def Let_def split_def loadrec_fields(2,3,4)
            applyBrowsingFlags_other_fields split: option.splits)
  next
    case False
    with Cons.prems a have "map_of es k = Some e" by simp
    from Cons.IH [OF this] False show ?thesis
      by (auto simp: a load_walk_def Let_def split_def split: option.splits)
  qed
qed

lemma NewDBExt_entry:
  assumes "Idx_get (NewDBidx d) k = Some e"
  shows "\<exists>e'. Idx_get (Idx (fst (NewDBExt d opts s))) k = Some e'
           \<and> recDataSeq e' = recDataSeq e \<and> datpos e' = datpos e \<and> datlen e' = datlen e
           \<and> (data e' = data e \<or> data e' = data (loadrec d e))"
proof (cases "LoadData opts")
  case True
  from assms have "map_of (entries (NewDBidx d)) k = Some e"
    by (simp add: Idx_get_def)
  from browse_load_entry [OF this, of d "WalkFunction opts" s] True show ?thesis
    by (auto simp: NewDBExt_def Let_def Idx_load_def split_def Idx_get_def)
next
  case False
  with assms show ?thesis
    by (simp add: NewDBExt_def Let_def)
qed

lemma NewDBExt_disk: "disk (fst (NewDBExt d opts s)) = d"
  by (simp add: NewDBExt_def Let_def split_def)

lemma Get_value:
  "Idx_get (Idx db) k = Some e \<Longrightarrow> fst (Get db k) = Some (Slice (loadrec (disk db) e))"
  by (simp add: Get_def Let_def Slice_def applyBrowsingFlags_other_fields)

lemma Slice_loadrec_reloaded:
  assumes "recDataSeq e' = recDataSeq e" "datpos e' = datpos e" "datlen e' = datlen e"
    and "data e = None" and "data e' = data e \<or> data e' = data (loadrec d e)"
  shows "Slice (loadrec d e') = read_dat d (recDataSeq e) (datpos e) (datlen e)"
  using assms by (auto simp: loadrec_def Slice_def)

lemma rewritten_read:
  assumes "rewritten e p seq 0 (dat_file d seq) e'" and "length (dat_file d seq) \<le> 2 ^ 32"
    and "datlen e = of_nat (length p)"
  shows "read_dat d (recDataSeq e') (datpos e') (datlen e') = p"
proof -
  from assms(1) obtain off where off: "datpos e' = of_nat off"
    "off + 12 + length p \<le> length (dat_file d seq)"
    "take (length p) (drop (off + 12) (dat_file d seq)) = p"
    and rest: "recDataSeq e' = seq" "datlen e' = datlen e"
    unfolding rewritten_def by auto
  from off(2) assms(2) have "off < 2 ^ 32" "length p < 2 ^ 32" by simp_all
  then have "unat (of_nat off :: u32) = off" "unat (of_nat (length p) :: u32) = length p"
    by (simp_all add: unat_of_nat)
  with off(1,3) rest assms(3) show ?thesis
    by (simp add: read_dat_def)
qed


lemma memput_entries: "entries (memput idx k rec) = AList.update k rec (entries idx)"
  by (simp add: memput_def Let_def split: option.splits)

lemma memput_fields:
  "DatfileIndex (memput idx k rec) = DatfileIndex idx"
  "MaxDatfileSequence (memput idx k rec) = MaxDatfileSequence idx"
  by (simp_all add: memput_def Let_def split: option.splits)

lemma Slice_loadrec_newIdx: "Slice (loadrec d (newIdx v fl)) = v"
  by (simp add: loadrec_def newIdx_def Slice_def)

lemma defrag_only_new_file:
  "fst ` set (dat_files (disk (defrag db))) \<subseteq> {DataSeq db + 1}"
  using defrag_browse_facts [of db]
  by (auto simp: defrag_disk split: if_splits)

lemmas defrag_eval_defs =
  Close_def defrag_def defrag_walk_def writedatfile_def cleanupold_def locator_def sum_len_def

lemma volatile_put_eq:
  "Put (open_with True None) 1 [97] =
     \<lparr>LogFile = False, LastValidLogPos = 0, DataSeq = 1,
      Idx = \<lparr>entries = [(1, \<lparr>data = Some [97], recDataSeq = 0, datpos = 0, datlen = 1, flags = 0\<rparr>)],
             ExtraSpaceUsed = 0, DiskSpaceNeeded = 1, MaxDatfileSequence = 0, DatfileIndex = 0\<rparr>,
      NoSyncMode = True, PendingRecords = [],
      Opts = \<lparr>DefragPercentVal = 50, ForcedDefragPerc = 300, MaxPending = 2500,
              MaxPendingNoSync = 10000\<rparr>,
      VolatileMode = True, disk = empty_disk\<rparr>"
  by (simp add: open_with_eq eval_defs)

lemma volatile_close_eq:
  "Close (Put (open_with True None) 1 [97]) =
     \<lparr>dat_files = [(2, [1, 0, 0, 0, 0, 0, 0, 0, 1, 0, 0, 0, 97])], qdb_log = [], qdb_0 = None,
      qdb_1 = Some \<lparr>snap_seq = 2, snap_recs = [(1, 2, 0, 1, 0)]\<rparr>\<rparr>"
  unfolding volatile_put_eq
  by (simp add: eval_defs defrag_eval_defs upt_rec)


text \<open>
  C8. In volatile mode \<open>Put\<close>, \<open>PutExt\<close> and \<open>Del\<close> change the index in memory and set
  no-sync mode, and nothing else: the pending set and the directory are as before.
  \<open>Close\<close> after a \<open>Put\<close> runs \<open>defrag\<close>: the directory then has an empty index log, data
  files of the new generation only, and a snapshot with the keys of the index, which is
  the one a later open picks. Opening the store on this directory, with any options,
  \<open>Get\<close> of the key returns the value that was put. The keys of the index are distinct
  (a Go map), a snapshot already in the directory has a generation below the one that
  \<open>defrag\<close> moves to, and the compacted data file stays within the range of the
  32-bit offsets.
\<close>

theorem volatile_put_close_reopen:
  assumes vol: "VolatileMode db"
    and dist: "distinct (map fst (entries (Idx db)))"
    and snaps: "\<And>sn. qdb_0 (disk db) = Some sn \<or> qdb_1 (disk db) = Some sn
                  \<Longrightarrow> snap_seq sn < DataSeq db + 1"
    and size: "length (dat_file (Close (Put db k v)) (DataSeq db + 1)) \<le> 2 ^ 32"
  shows "Put db k v = db\<lparr>Idx := memput (Idx db) k (newIdx v 0), NoSyncMode := True\<rparr>
       \<and> PutExt db k v fl = db\<lparr>Idx := memput (Idx db) k (newIdx v fl), NoSyncMode := True\<rparr>
       \<and> Del db k = db\<lparr>Idx := memdel (Idx db) k, NoSyncMode := True\<rparr>
       \<and> PendingRecords (Put db k v) = PendingRecords db \<and> disk (Put db k v) = disk db
       \<and> PendingRecords (Del db k) = PendingRecords db \<and> disk (Del db k) = disk db
       \<and> Close (Put db k v) = disk (defrag (Put db k v))
       \<and> qdb_log (Close (Put db k v)) = []
       \<and> fst ` set (dat_files (Close (Put db k v))) \<subseteq> {DataSeq db + 1}
       \<and> (\<exists>snap. pick_snapshot (Close (Put db k v)) = Some (1 - DatfileIndex (Idx db), snap)
             \<and> map fst (snap_recs snap) = map fst (entries (Idx (Put db k v))))
       \<and> fst (Get (fst (NewDBExt (Close (Put db k v)) opts s)) k) = Some v"
proof -
  let ?db1 = "db\<lparr>Idx := memput (Idx db) k (newIdx v 0), NoSyncMode := True\<rparr>"
  let ?d = "disk (defrag ?db1)"
  let ?es = "fst (defrag_browse ?db1)"
  let ?snap = "\<lparr>snap_seq = max_seq ?es (MaxDatfileSequence (Idx ?db1)), snap_recs = map locator ?es\<rparr>"
  have put: "Put db k v = ?db1"
    using vol by (simp add: Put_def Let_def)
  have putext: "PutExt db k v fl = db\<lparr>Idx := memput (Idx db) k (newIdx v fl), NoSyncMode := True\<rparr>"
    using vol by (simp add: PutExt_def Let_def)
  have del: "Del db k = db\<lparr>Idx := memdel (Idx db) k, NoSyncMode := True\<rparr>"
    using vol by (simp add: Del_def Let_def)
  have close: "Close ?db1 = ?d"
    using vol by (simp add: Close_def)
  have get1: "Idx_get (Idx ?db1) k = Some (newIdx v 0)"
    by (simp add: Idx_get_memput)
  then have ne: "entries (Idx ?db1) \<noteq> []"
    by (auto simp: Idx_get_def)
  from defrag_entry [OF get1] obtain e' where
    e': "Idx_get (Idx (defrag ?db1)) k = Some e'"
      "rewritten (newIdx v 0) v (DataSeq db + 1) 0 (dat_file ?d (DataSeq db + 1)) e'"
    by (auto simp: Slice_loadrec_newIdx)
  have pick: "pick_snapshot ?d = Some (1 - DatfileIndex (Idx ?db1), ?snap)"
    by (rule defrag_pick_snapshot [OF ne]) (use snaps in simp)
  have keys: "map fst ?es = map fst (entries (Idx ?db1))"
    using defrag_browse_facts [of ?db1] by simp
  have dk: "distinct (map fst (snap_recs ?snap))"
    using dist by (simp add: locator_keys keys memput_entries distinct_update)
  have "map_of ?es k = Some e'"
    using e'(1) by (simp add: Idx_get_def defrag_entries)
  then have idx: "Idx_get (NewDBidx ?d) k
      = Some (entry_of (recDataSeq e', datpos e', datlen e', flags e'))"
    using NewDBidx_get [OF pick defrag_snapshot(1) dk, of k] by (simp add: map_of_locator)
  let ?e0 = "entry_of (recDataSeq e', datpos e', datlen e', flags e')"
  from NewDBExt_entry [OF idx, of opts s] obtain e'' where
    e'': "Idx_get (Idx (fst (NewDBExt ?d opts s))) k = Some e''"
      "recDataSeq e'' = recDataSeq ?e0" "datpos e'' = datpos ?e0" "datlen e'' = datlen ?e0"
      "data e'' = data ?e0 \<or> data e'' = data (loadrec ?d ?e0)"
    by blast
  have "data ?e0 = None" by (simp add: entry_of_def)
  from Slice_loadrec_reloaded [OF e''(2,3,4) this e''(5)]
  have "Slice (loadrec ?d e'') = read_dat ?d (recDataSeq e') (datpos e') (datlen e')"
    by (simp add: entry_of_def)
  also have "\<dots> = v"
  proof (rule rewritten_read [OF e'(2)])
    show "length (dat_file ?d (DataSeq db + 1)) \<le> 2 ^ 32"
      using size by (simp add: put close)
    show "datlen (newIdx v 0) = of_nat (length v)"
      by (simp add: newIdx_def)
  qed
  finally have "fst (Get (fst (NewDBExt ?d opts s)) k) = Some v"
    using Get_value [OF e''(1)] by (simp add: NewDBExt_disk)
  moreover have "fst ` set (dat_files ?d) \<subseteq> {DataSeq db + 1}"
    using defrag_only_new_file [of ?db1] by simp
  moreover have "pick_snapshot ?d = Some (1 - DatfileIndex (Idx db), ?snap)
      \<and> map fst (snap_recs ?snap) = map fst (entries (Idx ?db1))"
    using pick keys by (simp add: locator_keys memput_fields)
  ultimately show ?thesis
    unfolding put putext del close
    using defrag_snapshot(1) [of ?db1] by (simp del: One_nat_def)
qed


theorem volatile_put_close_reopen_witness:
  "fst (Get (NewDB (Close (Put (open_with True None) 1 [97])) True) 1) = Some [97]
   \<and> PendingRecords (Put (open_with True None) 1 [97]) = []
   \<and> disk (Put (open_with True None) 1 [97]) = empty_disk
   \<and> NoSyncMode (Put (open_with True None) 1 [97])"
proof -
  let ?st = "open_with True None"
  have h1: "VolatileMode ?st" and h2: "distinct (map fst (entries (Idx ?st)))"
    by (simp_all add: open_with_eq)
  have h3: "snap_seq sn < DataSeq ?st + 1"
    if "qdb_0 (disk ?st) = Some sn \<or> qdb_1 (disk ?st) = Some sn" for sn
    using that by (simp add: open_with_eq empty_disk_def)
  have h4: "length (dat_file (Close (Put ?st 1 [97])) (DataSeq ?st + 1)) \<le> 2 ^ 32"
    unfolding volatile_close_eq by (simp add: open_with_eq dat_file_def)
  from volatile_put_close_reopen [OF h1 h2 h3 h4, of 0
      "\<lparr>Records = 0, WalkFunction = None, LoadData = True, Volatile = False, ExtraOpts = None\<rparr>" "()"]
  have "fst (Get (NewDB (Close (Put ?st 1 [97])) True) 1) = Some [97]"
    unfolding NewDB_def by blast
  then show ?thesis
    by (simp add: volatile_put_eq)
qed


section \<open>The sync procedure on a payload that is not in memory\<close>

lemma evicted_pending_eq:
  "evicted_pending =
     \<lparr>LogFile = True, LastValidLogPos = 15, DataSeq = 2,
      Idx = \<lparr>entries = [(1, \<lparr>data = None, recDataSeq = 2, datpos = 0, datlen = 3, flags = 2\<rparr>)],
             ExtraSpaceUsed = 0, DiskSpaceNeeded = 3, MaxDatfileSequence = 2, DatfileIndex = 1\<rparr>,
      NoSyncMode = False, PendingRecords = [1],
      Opts = \<lparr>DefragPercentVal = 50, ForcedDefragPerc = 300, MaxPending = 2500,
              MaxPendingNoSync = 10000\<rparr>,
      VolatileMode = False,
      disk = \<lparr>dat_files = [(2, [1, 0, 0, 0, 0, 0, 0, 0, 3, 0, 0, 0, 1, 2, 3])], qdb_log = [],
               qdb_0 = None, qdb_1 = Some \<lparr>snap_seq = 2, snap_recs = [(1, 2, 0, 3, 2)]\<rparr>\<rparr>\<rparr>"
  unfolding evicted_pending_def open_with_eq
  by (simp add: eval_defs defrag_eval_defs Defrag_def upt_rec)

lemma Sync_evicted_pending_eq:
  "Sync evicted_pending =
     \<lparr>LogFile = True, LastValidLogPos = 27, DataSeq = 2,
      Idx = \<lparr>entries = [(1, \<lparr>data = None, recDataSeq = 2, datpos = 15, datlen = 3, flags = 2\<rparr>)],
             ExtraSpaceUsed = 0, DiskSpaceNeeded = 3, MaxDatfileSequence = 2, DatfileIndex = 1\<rparr>,
      NoSyncMode = False, PendingRecords = [],
      Opts = \<lparr>DefragPercentVal = 50, ForcedDefragPerc = 300, MaxPending = 2500,
              MaxPendingNoSync = 10000\<rparr>,
      VolatileMode = False,
      disk = \<lparr>dat_files = [(2, [1, 0, 0, 0, 0, 0, 0, 0, 3, 0, 0, 0, 1, 2, 3,
                                   1, 0, 0, 0, 0, 0, 0, 0, 0, 0, 0, 0])],
               qdb_log = [PutRec 1 2 15 3 2],
               qdb_0 = None, qdb_1 = Some \<lparr>snap_seq = 2, snap_recs = [(1, 2, 0, 3, 2)]\<rparr>\<rparr>\<rparr>"
  unfolding evicted_pending_eq
  by (simp add: eval_defs Sync_def upt_rec)

text \<open>
  C3, at a pending key whose payload is not in memory. In \<open>evicted_pending\<close> key 1 is
  pending and live, its payload \<open>[1, 2, 3]\<close> is in the data file of generation 2 and not
  in memory, and \<open>Get\<close> returns it. \<open>sync\<close> passes \<open>rec.Slice()\<close> to the data layer
  without \<open>loadrec\<close> (\<open>defrag\<close> and \<open>Get\<close> call \<open>loadrec\<close> first): the record that \<open>Sync\<close>
  appends to the data file has an empty payload, the locator and the put record of the
  index log point at this record, at offset 15, and \<open>Get\<close> no longer returns the
  payload.
\<close>

theorem Sync_appends_empty_record:
  "PendingRecords evicted_pending = [1]
   \<and> Idx_get (Idx evicted_pending) 1
       = Some \<lparr>data = None, recDataSeq = 2, datpos = 0, datlen = 3, flags = 2\<rparr>
   \<and> dat_file (disk evicted_pending) 2 = dat_record 1 [1, 2, 3]
   \<and> fst (Get evicted_pending 1) = Some [1, 2, 3]
   \<and> dat_file (disk (Sync evicted_pending)) 2 = dat_record 1 [1, 2, 3] @ dat_record 1 []
   \<and> qdb_log (disk (Sync evicted_pending)) = [PutRec 1 2 15 3 2]
   \<and> Idx_get (Idx (Sync evicted_pending)) 1
       = Some \<lparr>data = None, recDataSeq = 2, datpos = 15, datlen = 3, flags = 2\<rparr>
   \<and> fst (Get (Sync evicted_pending) 1) = Some []"
proof -
  have before: "PendingRecords evicted_pending = [1]"
    "Idx_get (Idx evicted_pending) 1
       = Some \<lparr>data = None, recDataSeq = 2, datpos = 0, datlen = 3, flags = 2\<rparr>"
    "dat_file (disk evicted_pending) 2 = dat_record 1 [1, 2, 3]"
    "fst (Get evicted_pending 1) = Some [1, 2, 3]"
    unfolding evicted_pending_eq by (simp_all add: eval_defs upt_rec)
  have after: "dat_file (disk (Sync evicted_pending)) 2 = dat_record 1 [1, 2, 3] @ dat_record 1 []"
    "qdb_log (disk (Sync evicted_pending)) = [PutRec 1 2 15 3 2]"
    "Idx_get (Idx (Sync evicted_pending)) 1
       = Some \<lparr>data = None, recDataSeq = 2, datpos = 15, datlen = 3, flags = 2\<rparr>"
    "fst (Get (Sync evicted_pending) 1) = Some []"
    unfolding Sync_evicted_pending_eq by (simp_all add: eval_defs upt_rec)
  from before after show ?thesis by blast
qed


section \<open>Get after PutExt with NoCache\<close>

lemma insert_nonempty: "List.insert k xs \<noteq> []"
  by (auto simp: List.insert_def)

lemma NoCache_bit: "no_cache (newIdx v NoCache)"
  by (simp add: no_cache_def newIdx_def NoCache_def)

lemma synced_Slice:
  assumes "synced k rec seq start db' recs" and "length (Slice rec) < 2 ^ 32"
    and "datlen rec = of_nat (length (Slice rec))" and "no_cache rec"
  shows "\<exists>rec'. Idx_get (Idx db') k = Some rec' \<and> Slice (loadrec (disk db') rec') = Slice rec
           \<and> datlen rec' = datlen rec \<and> flags rec' = flags rec"
proof -
  from assms(1) obtain rec' where r: "Idx_get (Idx db') k = Some rec'" "recDataSeq rec' = seq"
    "take (length (Slice rec)) (drop (unat (datpos rec') + 12) (dat_file (disk db') seq)) = Slice rec"
    "datlen rec' = datlen rec" "flags rec' = flags rec"
    "data rec' = (if no_cache rec then None else data rec)"
    unfolding synced_def by blast
  have "unat (of_nat (length (Slice rec)) :: u32) = length (Slice rec)"
    using assms(2) by (simp add: unat_of_nat)
  with r assms(3,4) have "Slice (loadrec (disk db') rec') = Slice rec"
    by (simp add: loadrec_def read_dat_def Slice_def [of "_\<lparr>data := _\<rparr>"])
  with r show ?thesis by blast
qed

lemma Get_retains:
  assumes "Idx_get (Idx db) k = Some e" and "Slice (loadrec (disk db) e) = v"
  shows "fst (Get db k) = Some v
       \<and> (\<exists>e'. Idx_get (Idx (snd (Get db k))) k = Some e' \<and> data e' = Some v \<and> \<not> no_cache e'
              \<and> (\<forall>d. loadrec d e' = e'))"
proof -
  let ?e' = "applyBrowsingFlags (loadrec (disk db) e) YesCache"
  have d: "data ?e' = Some v"
    using loadrec_fields(5) [of "disk db" e] assms(2)
    by (simp add: applyBrowsingFlags_other_fields)
  have "\<not> no_cache ?e'"
    by (simp add: applyBrowsingFlags_YesCache no_cache_bit bit_clear_NoCache)
  moreover have "loadrec d' ?e' = ?e'" for d'
    using d by (simp add: loadrec_def)
  moreover have "Idx_get (Idx (snd (Get db k))) k = Some ?e'"
    using assms(1) by (simp add: Get_def Let_def Idx_get_Idx_set)
  moreover have "fst (Get db k) = Some v"
    using Get_value [OF assms(1)] assms(2) by simp
  ultimately show ?thesis
    using d by blast
qed

lemma held_small_batch_eq:
  "held_PutExt (open_with False (Some small_batch)) 1 [118] NoCache =
     \<lparr>LogFile = False, LastValidLogPos = 0, DataSeq = 1,
      Idx = \<lparr>entries = [(1, \<lparr>data = Some [118], recDataSeq = 0, datpos = 0, datlen = 1, flags = 2\<rparr>)],
             ExtraSpaceUsed = 0, DiskSpaceNeeded = 1, MaxDatfileSequence = 0, DatfileIndex = 0\<rparr>,
      NoSyncMode = False, PendingRecords = [1],
      Opts = \<lparr>DefragPercentVal = 50, ForcedDefragPerc = 300, MaxPending = 5, MaxPendingNoSync = 0\<rparr>,
      VolatileMode = False, disk = empty_disk\<rparr>"
  by (simp add: held_PutExt_def open_with_eq small_batch_def eval_defs)

lemma flush_small_batch_eq:
  "sync_flush (held_PutExt (open_with False (Some small_batch)) 1 [118] NoCache) =
     \<lparr>LogFile = True, LastValidLogPos = 13, DataSeq = 1,
      Idx = \<lparr>entries = [(1, \<lparr>data = None, recDataSeq = 1, datpos = 0, datlen = 1, flags = 2\<rparr>)],
             ExtraSpaceUsed = 0, DiskSpaceNeeded = 1, MaxDatfileSequence = 0, DatfileIndex = 0\<rparr>,
      NoSyncMode = False, PendingRecords = [],
      Opts = \<lparr>DefragPercentVal = 50, ForcedDefragPerc = 300, MaxPending = 5, MaxPendingNoSync = 0\<rparr>,
      VolatileMode = False,
      disk = \<lparr>dat_files = [(1, [1, 0, 0, 0, 0, 0, 0, 0, 1, 0, 0, 0, 118])],
               qdb_log = [PutRec 1 1 0 1 2], qdb_0 = None, qdb_1 = None\<rparr>\<rparr>"
  unfolding held_small_batch_eq
  by (simp add: eval_defs upt_rec)

lemma PutExt_small_batch_eq:
  "PutExt (open_with False (Some small_batch)) 1 [118] NoCache
     = sync_flush (held_PutExt (open_with False (Some small_batch)) 1 [118] NoCache)"
proof -
  have "PutExt (open_with False (Some small_batch)) 1 [118] NoCache
      = sync (held_PutExt (open_with False (Some small_batch)) 1 [118] NoCache)"
    by (simp add: PutExt_def held_PutExt_def open_with_eq small_batch_def syncneeded_def Let_def)
  also have "\<dots> = sync_flush (held_PutExt (open_with False (Some small_batch)) 1 [118] NoCache)"
    unfolding sync_def flush_small_batch_eq
    by (simp add: held_small_batch_eq forced_defrag_due_def)
  finally show ?thesis .
qed


text \<open>
  C1, as the code has it. For a store not in volatile mode, after
  \<open>PutExt(k, v, NoCache)\<close> a call \<open>Get(k)\<close> returns \<open>v\<close>, whether the put was held in
  memory, synced, or synced and compacted; and afterwards the payload is retained in
  the entry and its \<open>no_cache\<close> flag is clear: \<open>Get\<close> applies \<open>YesCache\<close> because it hands
  out the pointer, and a later \<open>loadrec\<close> of the entry reads no file. The pending keys
  are distinct (a Go map), the position of an open data file is its end, and the value
  and the data files stay within the range of the 32-bit lengths and offsets.
\<close>

theorem PutExt_NoCache_then_Get:
  assumes nv: "\<not> VolatileMode db"
    and dist: "distinct (PendingRecords db)"
    and pos: "LogFile db \<Longrightarrow> LastValidLogPos db = length (dat_file (disk db) (DataSeq db))"
    and len: "length v < 2 ^ 32"
    and size1: "syncneeded (held_PutExt db k v NoCache) \<Longrightarrow>
                  LastValidLogPos (sync_flush (held_PutExt db k v NoCache)) \<le> 2 ^ 32"
    and size2: "syncneeded (held_PutExt db k v NoCache) \<Longrightarrow>
                  forced_defrag_due (sync_flush (held_PutExt db k v NoCache)) \<Longrightarrow>
                  length (dat_file (disk (PutExt db k v NoCache)) (DataSeq db + 1)) \<le> 2 ^ 32"
  shows "fst (Get (PutExt db k v NoCache) k) = Some v
       \<and> (\<exists>e. Idx_get (Idx (snd (Get (PutExt db k v NoCache) k))) k = Some e
              \<and> data e = Some v \<and> \<not> no_cache e \<and> (\<forall>d. loadrec d e = e))"
proof -
  let ?held = "held_PutExt db k v NoCache"
  let ?fl = "sync_flush ?held"
  let ?new = "newIdx v NoCache"
  have put: "PutExt db k v NoCache
      = (if syncneeded ?held then (if forced_defrag_due ?fl then defrag ?fl else ?fl) else ?held)"
    using nv by (simp add: PutExt_def held_PutExt_def Let_def sync_def insert_nonempty)
  have h: "Idx_get (Idx ?held) k = Some ?new" "Slice ?new = v" "datlen ?new = of_nat (length v)"
    by (simp_all add: held_PutExt_def Idx_get_memput newIdx_def Slice_def)
  have held: "\<exists>e. Idx_get (Idx ?held) k = Some e \<and> Slice (loadrec (disk ?held) e) = v"
    using h(1) by (simp add: Slice_loadrec_newIdx)
  have synced_or_compacted:
    "(\<exists>e. Idx_get (Idx ?fl) k = Some e \<and> Slice (loadrec (disk ?fl) e) = v)
     \<and> (forced_defrag_due ?fl \<longrightarrow>
          (\<exists>e. Idx_get (Idx (defrag ?fl)) k = Some e
              \<and> Slice (loadrec (disk (defrag ?fl)) e) = v))"
    if sn: "syncneeded ?held"
  proof -
    have d1: "distinct (PendingRecords ?held)"
      using dist by (simp add: held_PutExt_def)
    have p1: "LogFile ?held \<Longrightarrow>
        LastValidLogPos ?held = length (dat_file (disk ?held) (DataSeq ?held))"
      using pos by (simp add: held_PutExt_def)
    from sync_flush_log_and_entries [OF d1 p1 size1 [OF sn]] obtain recs where
      "\<forall>k' \<in> set (PendingRecords ?held).
          case Idx_get (Idx ?held) k' of
            None \<Rightarrow> DelRec k' \<in> set recs \<and> Idx_get (Idx ?fl) k' = None
          | Some rec \<Rightarrow> synced k' rec (DataSeq ?held)
                           (length (dat_file (disk ?held) (DataSeq ?held))) ?fl recs"
      by blast
    moreover have "k \<in> set (PendingRecords ?held)"
      by (simp add: held_PutExt_def)
    ultimately have "synced k ?new (DataSeq ?held)
        (length (dat_file (disk ?held) (DataSeq ?held))) ?fl recs"
      using h(1) by fastforce
    from synced_Slice [OF this] len h(2,3) NoCache_bit obtain rec' where
      rec': "Idx_get (Idx ?fl) k = Some rec'" "Slice (loadrec (disk ?fl) rec') = v"
        "datlen rec' = of_nat (length v)" "flags rec' = flags ?new"
      by auto
    have compacted:
      "\<exists>e. Idx_get (Idx (defrag ?fl)) k = Some e \<and> Slice (loadrec (disk (defrag ?fl)) e) = v"
      if fd: "forced_defrag_due ?fl"
    proof -
      have seq: "DataSeq ?fl = DataSeq db"
        by (simp add: sync_flush_fields held_PutExt_def)
      from defrag_entry [OF rec'(1)] obtain e' where
        e': "Idx_get (Idx (defrag ?fl)) k = Some e'"
          "rewritten rec' v (DataSeq db + 1) 0 (dat_file (disk (defrag ?fl)) (DataSeq db + 1)) e'"
        by (auto simp: rec'(2) seq)
      have size: "length (dat_file (disk (defrag ?fl)) (DataSeq db + 1)) \<le> 2 ^ 32"
        using size2 [OF sn fd] sn fd by (simp add: put)
      have "no_cache rec'"
        using rec'(4) NoCache_bit by (simp add: no_cache_def)
      with e'(2) have "data e' = None"
        by (simp add: rewritten_def)
      then have "Slice (loadrec (disk (defrag ?fl)) e')
          = read_dat (disk (defrag ?fl)) (recDataSeq e') (datpos e') (datlen e')"
        by (simp add: loadrec_def Slice_def)
      also have "\<dots> = v"
        by (rule rewritten_read [OF e'(2) size rec'(3)])
      finally show ?thesis
        using e'(1) by blast
    qed
    with rec'(1,2) show ?thesis
      by blast
  qed
  from held synced_or_compacted have
    "\<exists>e. Idx_get (Idx (PutExt db k v NoCache)) k = Some e
        \<and> Slice (loadrec (disk (PutExt db k v NoCache)) e) = v"
    unfolding put by simp
  then show ?thesis
    using Get_retains by blast
qed

lemma held_reopened_eq:
  "held_PutExt reopened 1 [118] NoCache =
     \<lparr>LogFile = False, LastValidLogPos = 0, DataSeq = 2,
      Idx = \<lparr>entries = [(1, \<lparr>data = Some [118], recDataSeq = 0, datpos = 0, datlen = 1, flags = 2\<rparr>)],
             ExtraSpaceUsed = 5, DiskSpaceNeeded = 1, MaxDatfileSequence = 1, DatfileIndex = 0\<rparr>,
      NoSyncMode = False, PendingRecords = [1],
      Opts = \<lparr>DefragPercentVal = 50, ForcedDefragPerc = 300, MaxPending = 5, MaxPendingNoSync = 0\<rparr>,
      VolatileMode = False, disk = rewritten_disk\<rparr>"
  by (simp add: held_PutExt_def reopened_def rewritten_disk_def small_batch_def eval_defs)

lemma flush_reopened_eq:
  "sync_flush (held_PutExt reopened 1 [118] NoCache) =
     \<lparr>LogFile = True, LastValidLogPos = 13, DataSeq = 2,
      Idx = \<lparr>entries = [(1, \<lparr>data = None, recDataSeq = 2, datpos = 0, datlen = 1, flags = 2\<rparr>)],
             ExtraSpaceUsed = 5, DiskSpaceNeeded = 1, MaxDatfileSequence = 1, DatfileIndex = 0\<rparr>,
      NoSyncMode = False, PendingRecords = [],
      Opts = \<lparr>DefragPercentVal = 50, ForcedDefragPerc = 300, MaxPending = 5, MaxPendingNoSync = 0\<rparr>,
      VolatileMode = False,
      disk = \<lparr>dat_files = [(1, [1, 0, 0, 0, 0, 0, 0, 0, 4, 0, 0, 0, 1, 2, 3, 4,
                                  1, 0, 0, 0, 0, 0, 0, 0, 1, 0, 0, 0, 5]),
                             (2, [1, 0, 0, 0, 0, 0, 0, 0, 1, 0, 0, 0, 118])],
               qdb_log = [PutRec 1 1 0 4 0, PutRec 1 1 16 1 0, PutRec 1 2 0 1 2],
               qdb_0 = None, qdb_1 = None\<rparr>\<rparr>"
  unfolding held_reopened_eq
  by (simp add: rewritten_disk_def eval_defs upt_rec)

lemma PutExt_reopened_eq:
  "PutExt reopened 1 [118] NoCache =
     \<lparr>LogFile = True, LastValidLogPos = 13, DataSeq = 3,
      Idx = \<lparr>entries = [(1, \<lparr>data = None, recDataSeq = 3, datpos = 0, datlen = 1, flags = 2\<rparr>)],
             ExtraSpaceUsed = 0, DiskSpaceNeeded = 1, MaxDatfileSequence = 3, DatfileIndex = 1\<rparr>,
      NoSyncMode = False, PendingRecords = [],
      Opts = \<lparr>DefragPercentVal = 50, ForcedDefragPerc = 300, MaxPending = 5, MaxPendingNoSync = 0\<rparr>,
      VolatileMode = False,
      disk = \<lparr>dat_files = [(3, [1, 0, 0, 0, 0, 0, 0, 0, 1, 0, 0, 0, 118])], qdb_log = [],
               qdb_0 = None, qdb_1 = Some \<lparr>snap_seq = 3, snap_recs = [(1, 3, 0, 1, 2)]\<rparr>\<rparr>\<rparr>"
proof -
  have "PutExt reopened 1 [118] NoCache = sync (held_PutExt reopened 1 [118] NoCache)"
    by (simp add: PutExt_def held_PutExt_def reopened_def NewDBExt_def small_batch_def
          syncneeded_def Let_def split_def)
  also have "\<dots> = defrag (sync_flush (held_PutExt reopened 1 [118] NoCache))"
    unfolding sync_def flush_reopened_eq
    by (simp add: held_reopened_eq forced_defrag_due_def)
  also have "\<dots> = \<lparr>LogFile = True, LastValidLogPos = 13, DataSeq = 3,
      Idx = \<lparr>entries = [(1, \<lparr>data = None, recDataSeq = 3, datpos = 0, datlen = 1, flags = 2\<rparr>)],
             ExtraSpaceUsed = 0, DiskSpaceNeeded = 1, MaxDatfileSequence = 3, DatfileIndex = 1\<rparr>,
      NoSyncMode = False, PendingRecords = [],
      Opts = \<lparr>DefragPercentVal = 50, ForcedDefragPerc = 300, MaxPending = 5, MaxPendingNoSync = 0\<rparr>,
      VolatileMode = False,
      disk = \<lparr>dat_files = [(3, [1, 0, 0, 0, 0, 0, 0, 0, 1, 0, 0, 0, 118])], qdb_log = [],
               qdb_0 = None, qdb_1 = Some \<lparr>snap_seq = 3, snap_recs = [(1, 3, 0, 1, 2)]\<rparr>\<rparr>\<rparr>"
    unfolding flush_reopened_eq
    by (simp add: eval_defs defrag_eval_defs upt_rec)
  finally show ?thesis .
qed

theorem PutExt_NoCache_then_Get_witness:
  "fst (Get (PutExt (open_with False (Some small_batch)) 1 [118] NoCache) 1) = Some [118]
   \<and> Idx_get (Idx (PutExt (open_with False (Some small_batch)) 1 [118] NoCache)) 1
       = Some \<lparr>data = None, recDataSeq = 1, datpos = 0, datlen = 1, flags = 2\<rparr>
   \<and> fst (Get (PutExt reopened 1 [118] NoCache) 1) = Some [118]
   \<and> Idx_get (Idx (PutExt reopened 1 [118] NoCache)) 1
       = Some \<lparr>data = None, recDataSeq = 3, datpos = 0, datlen = 1, flags = 2\<rparr>"
proof -
  let ?st = "open_with False (Some small_batch)"
  have h1: "\<not> VolatileMode ?st" and h2: "distinct (PendingRecords ?st)"
    and h3: "LogFile ?st \<Longrightarrow> LastValidLogPos ?st = length (dat_file (disk ?st) (DataSeq ?st))"
    by (simp_all add: open_with_eq)
  have h4: "length [118 :: byte] < 2 ^ 32" by simp
  have h5: "LastValidLogPos (sync_flush (held_PutExt ?st 1 [118] NoCache)) \<le> 2 ^ 32"
    if "syncneeded (held_PutExt ?st 1 [118] NoCache)"
    unfolding flush_small_batch_eq by simp
  have h6: "length (dat_file (disk (PutExt ?st 1 [118] NoCache)) (DataSeq ?st + 1)) \<le> 2 ^ 32"
    if "syncneeded (held_PutExt ?st 1 [118] NoCache)"
      and "forced_defrag_due (sync_flush (held_PutExt ?st 1 [118] NoCache))"
    using that(2) unfolding flush_small_batch_eq by (simp add: forced_defrag_due_def)
  from PutExt_NoCache_then_Get [OF h1 h2 h3 h4 h5 h6]
  have a: "fst (Get (PutExt ?st 1 [118] NoCache) 1) = Some [118]"
    by blast
  have b: "Idx_get (Idx (PutExt ?st 1 [118] NoCache)) 1
       = Some \<lparr>data = None, recDataSeq = 1, datpos = 0, datlen = 1, flags = 2\<rparr>"
    unfolding PutExt_small_batch_eq flush_small_batch_eq by (simp add: Idx_get_def)
  have r: "\<not> VolatileMode reopened" "PendingRecords reopened = []" "\<not> LogFile reopened"
    "DataSeq reopened + 1 = 3"
    by (simp_all add: reopened_def rewritten_disk_def eval_defs)
  have g1: "distinct (PendingRecords reopened)"
    and g2: "LogFile reopened \<Longrightarrow>
      LastValidLogPos reopened = length (dat_file (disk reopened) (DataSeq reopened))"
    by (simp_all add: r)
  have g3: "LastValidLogPos (sync_flush (held_PutExt reopened 1 [118] NoCache)) \<le> 2 ^ 32"
    if "syncneeded (held_PutExt reopened 1 [118] NoCache)"
    unfolding flush_reopened_eq by simp
  have g4: "length (dat_file (disk (PutExt reopened 1 [118] NoCache)) (DataSeq reopened + 1))
      \<le> 2 ^ 32"
    if "syncneeded (held_PutExt reopened 1 [118] NoCache)"
      and "forced_defrag_due (sync_flush (held_PutExt reopened 1 [118] NoCache))"
    unfolding r(4) PutExt_reopened_eq by (simp add: dat_file_def)
  from PutExt_NoCache_then_Get [OF r(1) g1 g2 h4 g3 g4]
  have c: "fst (Get (PutExt reopened 1 [118] NoCache) 1) = Some [118]"
    by blast
  have d: "Idx_get (Idx (PutExt reopened 1 [118] NoCache)) 1
       = Some \<lparr>data = None, recDataSeq = 3, datpos = 0, datlen = 1, flags = 2\<rparr>"
    unfolding PutExt_reopened_eq by (simp add: Idx_get_def)
  from a b c d show ?thesis by simp
qed

text \<open>
  The claim as stated fails: after \<open>PutExt(7, "v", NoCache)\<close> and \<open>Get(7) = "v"\<close> the
  entry still has the payload in memory, with the \<open>no_cache\<close> flag cleared, and
  \<open>loadrec\<close> returns the entry as it is, with no data file to read from.
\<close>

theorem Get_drops_payload_counterexample:
  "fst (Get (PutExt (open_with False None) 7 [118] NoCache) 7) = Some [118]
   \<and> Idx_get (Idx (snd (Get (PutExt (open_with False None) 7 [118] NoCache) 7))) 7
       = Some \<lparr>data = Some [118], recDataSeq = 0, datpos = 0, datlen = 1, flags = 0\<rparr>
   \<and> loadrec empty_disk \<lparr>data = Some [118], recDataSeq = 0, datpos = 0, datlen = 1, flags = 0\<rparr>
       = \<lparr>data = Some [118], recDataSeq = 0, datpos = 0, datlen = 1, flags = 0\<rparr>"
  by (simp add: open_with_eq eval_defs)

end
